theory Spec2Isabelle
  imports Main "HOL-Library.AList"
begin

section \<open>JavaScript values\<close>

text \<open>
  The request body that reaches \<open>validateModVersion\<close> is a parsed JSON value. A property
  that is not there reads as \<open>undefined\<close>; it is \<open>None\<close> of \<open>json option\<close>.

  A string is a list of code units, of which \<open>char\<close> holds those below 256. A number is
  kept as the text that JavaScript prints for it (\<open>String(n)\<close>): the schemas below ask
  nothing else of a number. An object is its list of own properties, in insertion order,
  read with \<open>map_of\<close>.
\<close>

datatype json =
    JNull
  | JBool bool
  | JNum string
  | JStr string
  | JArr "json list"
  | JObj "(string \<times> json) list"

fun join :: "string list \<Rightarrow> string" where
  "join [] = []"
| "join [s] = s"
| "join (s # t # ss) = s @ '','' @ join (t # ss)"

text \<open>
  \<open>String(value)\<close>: an array prints its elements joined by commas, \<open>null\<close> elements as
  the empty string. A plain object prints as \<open>[object Object]\<close>, through the \<open>toString\<close>
  that it inherits; with a property \<open>toString\<close> of its own, which parsed JSON never makes
  a function, the conversion finds no primitive value and throws a \<open>TypeError\<close>
  (\<open>None\<close>).
\<close>

fun js_String :: "json \<Rightarrow> string option" where
  "js_String JNull = Some ''null''"
| "js_String (JBool b) = Some (if b then ''true'' else ''false'')"
| "js_String (JNum s) = Some s"
| "js_String (JStr s) = Some s"
| "js_String (JArr xs) =
     map_option join (those (map (\<lambda>x. case x of JNull \<Rightarrow> Some [] | _ \<Rightarrow> js_String x) xs))"
| "js_String (JObj kvs) =
     (if map_of kvs ''toString'' = None then Some ''[object Object]'' else None)"

text \<open>What counts as true in a condition: everything but \<open>null\<close>, \<open>false\<close>, zero and the
  empty string.\<close>

fun truthy :: "json \<Rightarrow> bool" where
  "truthy JNull = False"
| "truthy (JBool b) = b"
| "truthy (JNum s) = (s \<noteq> ''0'')"
| "truthy (JStr s) = (s \<noteq> [])"
| "truthy (JArr xs) = True"
| "truthy (JObj kvs) = True"

text \<open>
  The names that every plain object inherits from \<open>Object.prototype\<close>: reading one of
  them from an object that has no such property of its own gives the inherited member.
\<close>

definition Object_prototype :: "string list" where
  "Object_prototype =
     [''constructor'', ''__defineGetter__'', ''__defineSetter__'', ''hasOwnProperty'',
      ''__lookupGetter__'', ''__lookupSetter__'', ''isPrototypeOf'', ''propertyIsEnumerable'',
      ''toString'', ''valueOf'', ''__proto__'', ''toLocaleString'']"

definition char_code :: "char \<Rightarrow> nat" where
  "char_code c = of_char c"

definition to_lower :: "char \<Rightarrow> char" where
  "to_lower c =
     (if char_code CHR ''A'' \<le> char_code c \<and> char_code c \<le> char_code CHR ''Z''
      then char_of (char_code c + 32) else c)"

section \<open>Regular expressions\<close>

text \<open>
  The two patterns that yup tests strings against have neither back references nor
  look-around, so \<open>RegExp.prototype.test\<close> on a pattern anchored by \<open>^\<close> and \<open>$\<close> decides
  membership of the whole string in a regular language. It is decided here with
  derivatives.
\<close>

datatype regex =
    Never
  | Empty
  | Class "char \<Rightarrow> bool"
  | Alt regex regex
  | Cat regex regex
  | Rep regex

fun nullable :: "regex \<Rightarrow> bool" where
  "nullable Never = False"
| "nullable Empty = True"
| "nullable (Class p) = False"
| "nullable (Alt r s) = (nullable r \<or> nullable s)"
| "nullable (Cat r s) = (nullable r \<and> nullable s)"
| "nullable (Rep r) = True"

fun alt :: "regex \<Rightarrow> regex \<Rightarrow> regex" where
  "alt Never s = s"
| "alt r Never = r"
| "alt r s = Alt r s"

fun cat :: "regex \<Rightarrow> regex \<Rightarrow> regex" where
  "cat Never s = Never"
| "cat r Never = Never"
| "cat Empty s = s"
| "cat r s = Cat r s"

fun only :: "bool \<Rightarrow> regex \<Rightarrow> regex" where
  "only True r = r"
| "only False r = Never"

fun deriv :: "char \<Rightarrow> regex \<Rightarrow> regex" where
  "deriv c Never = Never"
| "deriv c Empty = Never"
| "deriv c (Class p) = only (p c) Empty"
| "deriv c (Alt r s) = alt (deriv c r) (deriv c s)"
| "deriv c (Cat r s) = alt (cat (deriv c r) s) (only (nullable r) (deriv c s))"
| "deriv c (Rep r) = cat (deriv c r) (Rep r)"

definition regex_test :: "regex \<Rightarrow> string \<Rightarrow> bool" where
  "regex_test r s = nullable (foldl (\<lambda>q c. deriv c q) r s)"

text \<open>
  What the test decides: the language of a pattern, the strings that the pattern matches
  from the first code unit to the last.
\<close>

inductive_set star :: "string set \<Rightarrow> string set" for A :: "string set" where
  star_nil: "[] \<in> star A"
| star_app: "u \<in> A \<Longrightarrow> v \<in> star A \<Longrightarrow> u @ v \<in> star A"

fun lang :: "regex \<Rightarrow> string set" where
  "lang Never = {}"
| "lang Empty = {[]}"
| "lang (Class p) = {[c] | c. p c}"
| "lang (Alt r s) = lang r \<union> lang s"
| "lang (Cat r s) = {u @ v | u v. u \<in> lang r \<and> v \<in> lang s}"
| "lang (Rep r) = star (lang r)"

text \<open>Both patterns carry the flag \<open>i\<close>: a literal character and a letter range match
  either case of an ASCII letter.\<close>

definition ch :: "char \<Rightarrow> regex" where
  "ch x = Class (\<lambda>c. to_lower c = to_lower x)"

definition char_range :: "char \<Rightarrow> char \<Rightarrow> regex" where
  "char_range lo hi =
     Class (\<lambda>c. char_code lo \<le> char_code (to_lower c) \<and> char_code (to_lower c) \<le> char_code hi)"

definition lit :: "string \<Rightarrow> regex" where
  "lit s = foldr (\<lambda>x r. Cat (ch x) r) s Empty"

definition opt :: "regex \<Rightarrow> regex" where
  "opt r = Alt r Empty"

definition many1 :: "regex \<Rightarrow> regex" where
  "many1 r = Cat r (Rep r)"

definition alts :: "regex list \<Rightarrow> regex" where
  "alts rs = foldr Alt rs Never"

definition cats :: "regex list \<Rightarrow> regex" where
  "cats rs = foldr Cat rs Empty"

section \<open>The yup schemas\<close>

subsection \<open>The URL pattern\<close>

text \<open>
  \<open>string().url()\<close> tests a string against yup's pattern \<open>rUrl\<close>, built here from its
  parts in the order of the pattern's text. The classes of code units from 160 on
  are cut down to the code units that \<open>char\<close> holds; the private-use class of the query
  part has none of them.
\<close>

definition alpha :: regex where
  "alpha = char_range CHR ''a'' CHR ''z''"

definition digit :: regex where
  "digit = char_range CHR ''0'' CHR ''9''"

definition ucschar :: regex where
  "ucschar = Class (\<lambda>c. 160 \<le> char_code c)"

definition unreserved :: regex where
  "unreserved = alts [alpha, digit, ch CHR ''-'', ch CHR ''.'', ch CHR ''_'', ch CHR ''~'', ucschar]"

definition pct_encoded :: regex where
  "pct_encoded = cats [ch CHR ''%'', Alt digit (char_range CHR ''a'' CHR ''f''),
     Alt digit (char_range CHR ''a'' CHR ''f'')]"

definition sub_delims :: regex where
  "sub_delims = Class (\<lambda>c. c \<in> set ''!$&'()*+,;='')"

definition userinfo :: regex where
  "userinfo = opt (Cat (Rep (alts [unreserved, pct_encoded, sub_delims, ch CHR '':''])) (ch CHR ''@''))"

definition octet :: regex where
  "octet = alts [digit,
     Cat (char_range CHR ''1'' CHR ''9'') digit,
     cats [ch CHR ''1'', digit, digit],
     cats [ch CHR ''2'', char_range CHR ''0'' CHR ''4'', digit],
     cats [lit ''25'', char_range CHR ''0'' CHR ''5'']]"

definition ipv4 :: regex where
  "ipv4 = cats [octet, ch CHR ''.'', octet, ch CHR ''.'', octet, ch CHR ''.'', octet]"

definition label_char :: regex where
  "label_char = alts [alpha, digit, ucschar]"

definition domain_label :: regex where
  "domain_label = Alt label_char (cats [label_char, Rep unreserved, label_char])"

definition tld_char :: regex where
  "tld_char = Alt alpha ucschar"

definition top_label :: regex where
  "top_label = Alt tld_char (cats [tld_char, Rep unreserved, tld_char])"

definition hostname :: regex where
  "hostname = cats [many1 (Cat domain_label (ch CHR ''.'')), top_label, opt (ch CHR ''.'')]"

definition port_part :: regex where
  "port_part = opt (Cat (ch CHR '':'') (Rep digit))"

definition pchar :: regex where
  "pchar = alts [unreserved, pct_encoded, sub_delims, ch CHR '':'', ch CHR ''@'']"

definition path_part :: regex where
  "path_part =
     opt (Cat (ch CHR ''/'') (opt (Cat (many1 pchar) (Rep (Cat (ch CHR ''/'') (Rep pchar))))))"

definition query_part :: regex where
  "query_part = opt (Cat (ch CHR ''?'') (Rep (alts [pchar, ch CHR ''/'', ch CHR ''?''])))"

definition fragment_part :: regex where
  "fragment_part = opt (Cat (ch CHR ''#'') (Rep (alts [pchar, ch CHR ''/'', ch CHR ''?''])))"

definition url_scheme :: regex where
  "url_scheme = Alt (Cat (lit ''http'') (opt (ch CHR ''s''))) (lit ''ftp'')"

definition url_rest :: regex where
  "url_rest = cats [userinfo, Alt ipv4 hostname, port_part, path_part, query_part, fragment_part]"

definition rUrl :: regex where
  "rUrl = Cat (opt (Cat url_scheme (ch CHR '':''))) (Cat (lit ''//'') url_rest)"

definition is_url :: "string \<Rightarrow> bool" where
  "is_url s = regex_test rUrl s"

text \<open>The ways in which a string that matches \<open>rUrl\<close> starts, in lower case.\<close>

definition url_prefixes :: "string list" where
  "url_prefixes = [''//'', ''http://'', ''https://'', ''ftp://'']"

subsection \<open>Field schemas\<close>

text \<open>
  \<open>string()\<close> and \<open>boolean()\<close> start a schema of that type; \<open>url()\<close> and \<open>required()\<close>
  append a test to it. A validation error carries the path of the field and the name of
  the test that failed (\<open>typeError\<close> for the type test every schema starts with); the
  root value has no path.
\<close>

datatype schema_type = TString | TBoolean

datatype test = TestUrl | TestRequired

datatype field_schema = Field schema_type "test list"

fun ftype :: "field_schema \<Rightarrow> schema_type" where
  "ftype (Field t ts) = t"

fun tests :: "field_schema \<Rightarrow> test list" where
  "tests (Field t ts) = ts"

definition string_schema :: field_schema where
  "string_schema = Field TString []"

definition boolean_schema :: field_schema where
  "boolean_schema = Field TBoolean []"

fun url :: "field_schema \<Rightarrow> field_schema" where
  "url (Field t ts) = Field t (ts @ [TestUrl])"

fun required :: "field_schema \<Rightarrow> field_schema" where
  "required (Field t ts) = Field t (ts @ [TestRequired])"

datatype error_type = TypeError | UrlError | RequiredError

record ValidationError =
  path :: "string option"
  type :: error_type

text \<open>
  What a promise is rejected with, and what the error handler of the server is handed.
  Of a \<open>SyntaxError\<close> the handler reads \<open>status\<close> and whether it has a \<open>body\<close>; of a yup
  error, nothing but its class. A \<open>TypeError\<close> of the language (\<open>JsTypeError\<close>, with its
  message) is thrown where a value that is no function is called.

  Modelled from the spec: the messaging sender fails with a \<open>SendError\<close>; the sender
  itself is not part of the sources.
\<close>

datatype js_error =
    SyntaxError "nat option" bool string
  | Validation ValidationError
  | JsTypeError string
  | SendError string
  | OtherError string

text \<open>
  The transform of a string schema: a string stays, and so does an array; any other
  value that is not \<open>null\<close> and has a truthy \<open>toString\<close> is replaced by
  \<open>value.toString()\<close>, unless that is \<open>[object Object]\<close>. So a number or a boolean
  becomes its printed text, \<open>null\<close> and a plain object stay as they are (and fail the
  type test), and an object with a truthy property \<open>toString\<close> of its own, which is no
  function, makes the call throw.
\<close>

fun cast_string :: "json \<Rightarrow> js_error + json" where
  "cast_string (JStr s) = Inr (JStr s)"
| "cast_string (JArr xs) = Inr (JArr xs)"
| "cast_string JNull = Inr JNull"
| "cast_string (JObj kvs) =
     (case map_of kvs ''toString'' of
        None \<Rightarrow> Inr (JObj kvs)
      | Some f \<Rightarrow>
          if truthy f then Inl (JsTypeError ''value.toString is not a function'')
          else Inr (JObj kvs))"
| "cast_string (JNum s) = Inr (JStr s)"
| "cast_string (JBool b) = Inr (JStr (if b then ''true'' else ''false''))"

text \<open>
  The transform of a boolean schema: a value that is not a boolean becomes \<open>true\<close> when
  \<open>String(value)\<close> matches \<open>/^(true|1)$/i\<close>, \<open>false\<close> when it matches \<open>/^(false|0)$/i\<close>,
  and stays otherwise; where \<open>String(value)\<close> throws, so does the transform.
\<close>

definition cast_boolean :: "json \<Rightarrow> js_error + json" where
  "cast_boolean v =
     (case v of
        JBool b \<Rightarrow> Inr v
      | _ \<Rightarrow>
          (case js_String v of
             None \<Rightarrow> Inl (JsTypeError ''Cannot convert object to primitive value'')
           | Some text \<Rightarrow>
               Inr (if regex_test (Alt (lit ''true'') (lit ''1'')) text then JBool True
                    else if regex_test (Alt (lit ''false'') (lit ''0'')) text then JBool False
                    else v)))"

fun isType :: "schema_type \<Rightarrow> json \<Rightarrow> bool" where
  "isType TString (JStr s) = True"
| "isType TBoolean (JBool b) = True"
| "isType t v = False"

text \<open>\<open>cast\<close> leaves \<open>undefined\<close> alone (neither schema has a default).\<close>

fun cast :: "field_schema \<Rightarrow> json option \<Rightarrow> js_error + json option" where
  "cast f None = Inr None"
| "cast f (Some v) =
     (case (case ftype f of TString \<Rightarrow> cast_string v | TBoolean \<Rightarrow> cast_boolean v) of
        Inl err \<Rightarrow> Inl err
      | Inr v' \<Rightarrow> Inr (Some v'))"

text \<open>The type test passes \<open>undefined\<close> and any value of the schema's type.\<close>

fun typeError :: "field_schema \<Rightarrow> json option \<Rightarrow> bool" where
  "typeError f None = False"
| "typeError f (Some v) = (\<not> isType (ftype f) v)"

text \<open>
  The tests run on a value that passed the type test, so on \<open>undefined\<close> or a value of
  the schema's type. \<open>required\<close> wants a value that is neither \<open>undefined\<close> nor \<open>null\<close>
  and, of a string, a positive length. \<open>url\<close> passes \<open>undefined\<close>, \<open>null\<close> and the empty
  string, and any other string that matches the pattern.
\<close>

fun test_passes :: "test \<Rightarrow> json option \<Rightarrow> bool" where
  "test_passes TestRequired None = False"
| "test_passes TestRequired (Some JNull) = False"
| "test_passes TestRequired (Some (JStr s)) = (s \<noteq> [])"
| "test_passes TestRequired (Some v) = True"
| "test_passes TestUrl None = True"
| "test_passes TestUrl (Some JNull) = True"
| "test_passes TestUrl (Some (JStr s)) = (s = [] \<or> is_url s)"
| "test_passes TestUrl (Some v) = False"

fun test_error :: "test \<Rightarrow> error_type" where
  "test_error TestUrl = UrlError"
| "test_error TestRequired = RequiredError"

text \<open>The error of one field, if it has one: the type error, or else the first of its
  tests that fails.\<close>

definition field_error :: "field_schema \<Rightarrow> json option \<Rightarrow> error_type option" where
  "field_error f v =
     (if typeError f v then Some TypeError
      else map_option test_error (find (\<lambda>t. \<not> test_passes t v) (tests f)))"

subsection \<open>Object schemas\<close>

text \<open>
  \<open>object().shape(fields)\<close> keeps the fields and the order in which it visits them:
  \<open>_nodes\<close>, the keys sorted by their dependencies and reversed. No field of
  \<open>modVersionSchema\<close> refers to another, so the nodes are the keys in reverse.
\<close>

datatype object_schema =
  ObjectSchema (schema_fields: "(string \<times> field_schema) list") (nodes: "string list")

definition shape :: "(string \<times> field_schema) list \<Rightarrow> object_schema" where
  "shape fs = ObjectSchema fs (rev (map fst fs))"

text \<open>
  The transform of an object schema: a string is parsed as JSON (\<open>null\<close> when the parser
  throws), and whatever is not a plain object by then becomes \<open>null\<close>. \<open>JSON.parse\<close> is
  the host's and is a parameter: \<open>parse s = None\<close> when it throws on \<open>s\<close>.
\<close>

fun coerce :: "(string \<rightharpoonup> json) \<Rightarrow> json \<Rightarrow> json" where
  "coerce parse (JStr s) =
     (case parse s of Some (JObj kvs) \<Rightarrow> JObj kvs | _ \<Rightarrow> JNull)"
| "coerce parse (JObj kvs) = JObj kvs"
| "coerce parse v = JNull"

text \<open>
  \<open>fields[prop]\<close>: the fields are a plain object, so a key that is no field of the schema
  but the name of a member of \<open>Object.prototype\<close> reads as that member.
\<close>

datatype property = OwnField field_schema | Inherited | Undefined

definition get_field :: "(string \<times> field_schema) list \<Rightarrow> string \<Rightarrow> property" where
  "get_field fs prop =
     (case map_of fs prop of
        Some field \<Rightarrow> OwnField field
      | None \<Rightarrow> if prop \<in> set Object_prototype then Inherited else Undefined)"

text \<open>
  The cast of an object visits the nodes and then the other keys of the value, in this
  order, and stops where something is thrown. Where \<open>fields[prop]\<close> is truthy the key
  gets the cast of its value by \<open>field.resolve(...).cast(...)\<close>, unless that is
  \<open>undefined\<close>: for a field of the schema that is the cast of the field; an inherited
  member has no \<open>resolve\<close>, and the call throws. Any other key is copied unless unknown
  keys are stripped. The value itself is returned when nothing differs from it.
\<close>

definition cast_prop ::
  "bool \<Rightarrow> object_schema \<Rightarrow> (string \<times> json) list \<Rightarrow> string \<Rightarrow> js_error + json option" where
  "cast_prop strip sch value prop =
     (case get_field (schema_fields sch) prop of
        OwnField field \<Rightarrow> cast field (map_of value prop)
      | Inherited \<Rightarrow> Inl (JsTypeError ''field.resolve is not a function'')
      | Undefined \<Rightarrow> Inr (if strip then None else map_of value prop))"

definition props_of :: "object_schema \<Rightarrow> (string \<times> json) list \<Rightarrow> string list" where
  "props_of sch value = nodes sch @ filter (\<lambda>k. k \<notin> set (nodes sch)) (map fst value)"

fun cast_props ::
  "bool \<Rightarrow> object_schema \<Rightarrow> (string \<times> json) list \<Rightarrow> string list
     \<Rightarrow> js_error + (string \<times> json) list" where
  "cast_props strip sch value [] = Inr []"
| "cast_props strip sch value (prop # props) =
     (case cast_prop strip sch value prop of
        Inl err \<Rightarrow> Inl err
      | Inr fieldValue \<Rightarrow>
          (case cast_props strip sch value props of
             Inl err \<Rightarrow> Inl err
           | Inr rest \<Rightarrow>
               Inr (case fieldValue of Some v \<Rightarrow> (prop, v) # rest | None \<Rightarrow> rest)))"

definition intermediateValue ::
  "bool \<Rightarrow> object_schema \<Rightarrow> (string \<times> json) list \<Rightarrow> js_error + (string \<times> json) list" where
  "intermediateValue strip sch value = cast_props strip sch value (props_of sch value)"

definition isChanged ::
  "object_schema \<Rightarrow> (string \<times> json) list \<Rightarrow> (string \<times> json) list \<Rightarrow> bool" where
  "isChanged sch value intermediate =
     list_ex (\<lambda>prop. map_of intermediate prop \<noteq> map_of value prop) (props_of sch value)"

definition object_cast ::
  "bool \<Rightarrow> object_schema \<Rightarrow> (string \<times> json) list \<Rightarrow> js_error + (string \<times> json) list" where
  "object_cast strip sch value =
     (case intermediateValue strip sch value of
        Inl err \<Rightarrow> Inl err
      | Inr intermediate \<Rightarrow>
          Inr (if isChanged sch value intermediate then intermediate else value))"

text \<open>
  Validation of the fields of the cast value. Every test is asynchronous and the first
  error to arrive rejects the promise (\<open>abortEarly\<close> is on by default): the type tests
  of all fields settle before any other test does, each round in the order of the nodes.
\<close>

definition type_error_at ::
  "object_schema \<Rightarrow> (string \<times> json) list \<Rightarrow> string \<Rightarrow> ValidationError option" where
  "type_error_at sch value key =
     (case map_of (schema_fields sch) key of
        Some field \<Rightarrow>
          if typeError field (map_of value key)
          then Some \<lparr>path = Some key, type = TypeError\<rparr> else None
      | None \<Rightarrow> None)"

definition test_error_at ::
  "object_schema \<Rightarrow> (string \<times> json) list \<Rightarrow> string \<Rightarrow> ValidationError option" where
  "test_error_at sch value key =
     (case map_of (schema_fields sch) key of
        Some field \<Rightarrow>
          if typeError field (map_of value key) then None
          else map_option (\<lambda>t. \<lparr>path = Some key, type = test_error t\<rparr>)
                 (find (\<lambda>t. \<not> test_passes t (map_of value key)) (tests field))
      | None \<Rightarrow> None)"

definition type_errors :: "object_schema \<Rightarrow> (string \<times> json) list \<Rightarrow> ValidationError list" where
  "type_errors sch value = List.map_filter (type_error_at sch value) (nodes sch)"

definition test_errors :: "object_schema \<Rightarrow> (string \<times> json) list \<Rightarrow> ValidationError list" where
  "test_errors sch value = List.map_filter (test_error_at sch value) (nodes sch)"

text \<open>
  \<open>schema.validate(input, {stripUnknown})\<close>: the promise is resolved with the cast value
  (\<open>Inr\<close>) or rejected (\<open>Inl\<close>), with what the cast throws or else with the
  \<open>ValidationError\<close> of the first test that fails.
\<close>

definition validate ::
  "(string \<rightharpoonup> json) \<Rightarrow> object_schema \<Rightarrow> bool \<Rightarrow> json
     \<Rightarrow> js_error + (string \<times> json) list" where
  "validate parse sch stripUnknown input =
     (case coerce parse input of
        JObj obj \<Rightarrow>
          (case object_cast stripUnknown sch obj of
             Inl err \<Rightarrow> Inl err
           | Inr value \<Rightarrow>
               (case type_errors sch value @ test_errors sch value of
                  [] \<Rightarrow> Inr value
                | e # es \<Rightarrow> Inl (Validation e)))
      | _ \<Rightarrow> Inl (Validation \<lparr>path = None, type = TypeError\<rparr>))"

section \<open>Validation of a mod version\<close>

definition modVersionSchema :: object_schema where
  "modVersionSchema = shape
     [(''modTitle'', required string_schema),
      (''modDescription'', required string_schema),
      (''modBannerUrl'', required (url string_schema)),
      (''modIconUrl'', required (url string_schema)),
      (''modUrl'', required (url string_schema)),
      (''modAuthorName'', required string_schema),
      (''modAuthorUrl'', required (url string_schema)),
      (''version'', required string_schema),
      (''changelog'', required string_schema),
      (''initial'', required boolean_schema)]"

definition validateModVersion ::
  "(string \<rightharpoonup> json) \<Rightarrow> json \<Rightarrow> js_error + (string \<times> json) list" where
  "validateModVersion parse input = validate parse modVersionSchema True input"

section \<open>The webhook server\<close>

text \<open>
  The error handler answers with \<open>err.message\<close>, which for a yup error is the text that
  yup renders from the error (\<open>YupMessage\<close>).
\<close>

datatype message = Text string | YupMessage ValidationError

datatype response_body = Success | ErrorBody string message

record response =
  status :: nat
  body :: response_body

fun error :: "js_error \<Rightarrow> response" where
  "error (SyntaxError st has_body msg) =
     (if st = Some 400 \<and> has_body
      then \<lparr>status = 400, body = ErrorBody ''SyntaxError'' (Text msg)\<rparr>
      else \<lparr>status = 500, body = ErrorBody ''ServerError'' (Text ''Something went wrong on our end!'')\<rparr>)"
| "error (Validation e) = \<lparr>status = 400, body = ErrorBody ''ValidationError'' (YupMessage e)\<rparr>"
| "error err = \<lparr>status = 500, body = ErrorBody ''ServerError'' (Text ''Something went wrong on our end!'')\<rparr>"

text \<open>
  \<open>postModVersion\<close>: validate the body, hand the version to the callback
  \<open>onModVersionRelease\<close> (\<open>None\<close> when its promise resolves, the error when it rejects),
  answer 200; whatever either of them is rejected with goes to the error handler.
\<close>

definition postModVersion ::
  "(string \<rightharpoonup> json) \<Rightarrow> ((string \<times> json) list \<Rightarrow> js_error option) \<Rightarrow> json \<Rightarrow> response" where
  "postModVersion parse onModVersionRelease req_body =
     (case validateModVersion parse req_body of
        Inl err \<Rightarrow> error err
      | Inr version \<Rightarrow>
          (case onModVersionRelease version of
             Some err \<Rightarrow> error err
           | None \<Rightarrow> \<lparr>status = 200, body = Success\<rparr>))"

section \<open>Configuration\<close>

datatype environment = development | production

record ModVersionNotificationConfiguration =
  discordWebhookUrl :: string
  discordRolePingId :: "string option"

record LauncherVersionNotificationsConfiguration =
  name :: string
  downloadUrl :: string
  logoUrl :: string
  discordWebhookUrl :: string
  discordRolePingId :: "string option"

record LoaderVersionNotificationsConfiguration =
  name :: string
  logoUrl :: string
  discordWebhookUrl :: string
  discordRolePingId :: "string option"

record Configuration =
  environment :: environment
  sentryDsn :: string
  port :: nat
  token :: "string option"
  pingCooldown :: int
  modVersionNotifications :: ModVersionNotificationConfiguration
  launcherVersionNotifications :: LauncherVersionNotificationsConfiguration
  loaderVersionNotifications :: LoaderVersionNotificationsConfiguration

section \<open>Role pings and their cooldown\<close>

datatype category = ModVersion | LauncherVersion | LoaderVersion

fun rolePingId :: "Configuration \<Rightarrow> category \<Rightarrow> string option" where
  "rolePingId cfg ModVersion =
     ModVersionNotificationConfiguration.discordRolePingId (modVersionNotifications cfg)"
| "rolePingId cfg LauncherVersion =
     LauncherVersionNotificationsConfiguration.discordRolePingId (launcherVersionNotifications cfg)"
| "rolePingId cfg LoaderVersion =
     LoaderVersionNotificationsConfiguration.discordRolePingId (loaderVersionNotifications cfg)"

fun webhookUrl :: "Configuration \<Rightarrow> category \<Rightarrow> string" where
  "webhookUrl cfg ModVersion =
     ModVersionNotificationConfiguration.discordWebhookUrl (modVersionNotifications cfg)"
| "webhookUrl cfg LauncherVersion =
     LauncherVersionNotificationsConfiguration.discordWebhookUrl (launcherVersionNotifications cfg)"
| "webhookUrl cfg LoaderVersion =
     LoaderVersionNotificationsConfiguration.discordWebhookUrl (loaderVersionNotifications cfg)"

fun metadata :: "Configuration \<Rightarrow> category \<Rightarrow> string list" where
  "metadata cfg ModVersion = []"
| "metadata cfg LauncherVersion =
     [LauncherVersionNotificationsConfiguration.name (launcherVersionNotifications cfg),
      downloadUrl (launcherVersionNotifications cfg),
      LauncherVersionNotificationsConfiguration.logoUrl (launcherVersionNotifications cfg)]"
| "metadata cfg LoaderVersion =
     [LoaderVersionNotificationsConfiguration.name (loaderVersionNotifications cfg),
      LoaderVersionNotificationsConfiguration.logoUrl (loaderVersionNotifications cfg)]"

text \<open>
  Modelled from the spec: the Cooldown Tracker, whose code is not part of the sources.
  The state holds, per category, the time in milliseconds of the last ping sent, and
  nothing before the first one.
\<close>

type_synonym cooldown_state = "category \<rightharpoonup> int"

definition shouldPing :: "Configuration \<Rightarrow> cooldown_state \<Rightarrow> category \<Rightarrow> int \<Rightarrow> bool" where
  "shouldPing cfg st c now =
     (case st c of
        None \<Rightarrow> True
      | Some lastPingTimestamp \<Rightarrow> now - lastPingTimestamp \<ge> pingCooldown cfg)"

definition recordPing :: "cooldown_state \<Rightarrow> category \<Rightarrow> int \<Rightarrow> cooldown_state" where
  "recordPing st c now = st(c \<mapsto> now)"

text \<open>
  Modelled from the spec: the Notification Composer, whose code is not part of the
  sources. The spec leaves the rendering open; the content is kept as the category's
  display metadata and the event it is rendered from. The mention is the role that is
  pinged, and \<open>None\<close> when the message has no mention.
\<close>

record ComposedNotification =
  target :: string
  content :: "string list \<times> (string \<times> json) list"
  mention :: "string option"
  includesMention :: bool

definition compose ::
  "Configuration \<Rightarrow> category \<Rightarrow> (string \<times> json) list \<Rightarrow> bool \<Rightarrow> ComposedNotification" where
  "compose cfg c event pingDecision =
     \<lparr>target = webhookUrl cfg c,
      content = (metadata cfg c, event),
      mention = (case rolePingId cfg c of
                   Some role \<Rightarrow> if pingDecision then Some role else None
                 | None \<Rightarrow> None),
      includesMention = (rolePingId cfg c \<noteq> None \<and> pingDecision)\<rparr>"

text \<open>
  Modelled from the spec: the Dispatch Pipeline, whose code is not part of the sources.
  The validator of each category and the sender are parameters; the sender answers
  whether it delivered the message.
\<close>

datatype failure = ValidationFailure ValidationError | DownstreamFailure

datatype outcome = Delivered ComposedNotification | Rejected failure

definition decide_and_compose ::
  "Configuration \<Rightarrow> cooldown_state \<Rightarrow> category \<Rightarrow> (string \<times> json) list \<Rightarrow> int
     \<Rightarrow> ComposedNotification" where
  "decide_and_compose cfg st c event now = compose cfg c event (shouldPing cfg st c now)"

definition handle ::
  "Configuration \<Rightarrow> (category \<Rightarrow> json \<Rightarrow> ValidationError + (string \<times> json) list)
     \<Rightarrow> (ComposedNotification \<Rightarrow> bool) \<Rightarrow> cooldown_state \<Rightarrow> category \<Rightarrow> json \<Rightarrow> int
     \<Rightarrow> cooldown_state \<times> outcome" where
  "handle cfg validator send st c rawPayload now =
     (case validator c rawPayload of
        Inl e \<Rightarrow> (st, Rejected (ValidationFailure e))
      | Inr event \<Rightarrow>
          (let notification = decide_and_compose cfg st c event now
           in if send notification
              then (if includesMention notification then recordPing st c now else st,
                    Delivered notification)
              else (st, Rejected DownstreamFailure)))"

section \<open>Predicates of the specification\<close>

definition field_names :: "string list" where
  "field_names = [''modTitle'', ''modDescription'', ''modBannerUrl'', ''modIconUrl'', ''modUrl'',
     ''modAuthorName'', ''modAuthorUrl'', ''version'', ''changelog'', ''initial'']"

definition string_fields :: "string list" where
  "string_fields = [''modTitle'', ''modDescription'', ''modBannerUrl'', ''modIconUrl'', ''modUrl'',
     ''modAuthorName'', ''modAuthorUrl'', ''version'', ''changelog'']"

definition url_fields :: "string list" where
  "url_fields = [''modBannerUrl'', ''modIconUrl'', ''modUrl'', ''modAuthorUrl'']"

text \<open>
  In the words of the specification: the field is present and well-typed, that is a
  non-empty string, a string that is a URL, a boolean.
\<close>

fun is_text :: "json option \<Rightarrow> bool" where
  "is_text (Some (JStr s)) = (s \<noteq> [])"
| "is_text v = False"

fun is_url_text :: "json option \<Rightarrow> bool" where
  "is_url_text (Some (JStr s)) = is_url s"
| "is_url_text v = False"

fun is_boolean :: "json option \<Rightarrow> bool" where
  "is_boolean (Some (JBool b)) = True"
| "is_boolean v = False"

definition well_typed_payload :: "(string \<times> json) list \<Rightarrow> bool" where
  "well_typed_payload p \<longleftrightarrow>
     list_all (\<lambda>f. is_text (map_of p f)) string_fields \<and>
     list_all (\<lambda>f. is_url_text (map_of p f)) url_fields \<and>
     is_boolean (map_of p ''initial'')"

text \<open>
  What the schemas accept of a field, said of the value that is sent. For a string field:
  a non-empty string, a number (it is taken by its printed text, which the value \<open>JNum\<close>
  holds) or a boolean (taken as \<open>true\<close> or \<open>false\<close>). For a URL field: a string, or the
  text of a number, that matches the URL pattern. For \<open>initial\<close>: a boolean; a string or
  a number that reads \<open>true\<close>, \<open>1\<close>, \<open>false\<close> or \<open>0\<close>, in either case of the letters; or
  an array of one such element, an array being taken as its elements joined by commas.
\<close>

fun text_ok :: "json option \<Rightarrow> bool" where
  "text_ok (Some (JStr s)) = (s \<noteq> [])"
| "text_ok (Some (JNum s)) = (s \<noteq> [])"
| "text_ok (Some (JBool b)) = True"
| "text_ok v = False"

fun url_ok :: "json option \<Rightarrow> bool" where
  "url_ok (Some (JStr s)) = is_url s"
| "url_ok (Some (JNum s)) = is_url s"
| "url_ok v = False"

definition boolean_words :: "string list" where
  "boolean_words = [''true'', ''1'', ''false'', ''0'']"

fun boolean_like :: "json \<Rightarrow> bool" where
  "boolean_like (JBool b) = True"
| "boolean_like (JStr s) = (map to_lower s \<in> set boolean_words)"
| "boolean_like (JNum s) = (map to_lower s \<in> set boolean_words)"
| "boolean_like (JArr [x]) = boolean_like x"
| "boolean_like (JArr []) = False"
| "boolean_like (JArr (x # y # zs)) = False"
| "boolean_like JNull = False"
| "boolean_like (JObj kvs) = False"

fun boolean_ok :: "json option \<Rightarrow> bool" where
  "boolean_ok (Some v) = boolean_like v"
| "boolean_ok None = False"

definition acceptable_payload :: "(string \<times> json) list \<Rightarrow> bool" where
  "acceptable_payload p \<longleftrightarrow>
     list_all (\<lambda>f. text_ok (map_of p f)) string_fields \<and>
     list_all (\<lambda>f. url_ok (map_of p f)) url_fields \<and>
     boolean_ok (map_of p ''initial'')"

text \<open>No key of the payload is the name of a member of \<open>Object.prototype\<close>.\<close>

definition plain_keys :: "(string \<times> json) list \<Rightarrow> bool" where
  "plain_keys p \<longleftrightarrow> list_all (\<lambda>k. k \<notin> set Object_prototype) (map fst p)"

text \<open>
  In the words of the specification: a syntactically valid URL, whatever its scheme. It
  is the pattern of \<open>rUrl\<close> with any scheme name in the place of \<open>http\<close>, \<open>https\<close> and
  \<open>ftp\<close>.
\<close>

definition any_scheme :: regex where
  "any_scheme = Cat alpha (Rep (alts [alpha, digit, ch CHR ''+'', ch CHR ''-'', ch CHR ''.'']))"

definition url_of_any_scheme :: "string \<Rightarrow> bool" where
  "url_of_any_scheme s =
     regex_test (Cat (opt (Cat any_scheme (ch CHR '':''))) (Cat (lit ''//'') url_rest)) s"

text \<open>A field of the cast value has no error.\<close>

definition field_ok :: "object_schema \<Rightarrow> (string \<times> json) list \<Rightarrow> string \<Rightarrow> bool" where
  "field_ok sch value key =
     (case map_of (schema_fields sch) key of
        Some field \<Rightarrow> field_error field (map_of value key) = None
      | None \<Rightarrow> True)"

section \<open>Sample values\<close>

definition sample_payload :: "(string \<times> json) list" where
  "sample_payload =
     [(''modTitle'', JStr ''Raft Plus''),
      (''modDescription'', JStr ''More rafts''),
      (''modBannerUrl'', JStr ''https://raft.example/b.png''),
      (''modIconUrl'', JStr ''https://raft.example/i.png''),
      (''modUrl'', JStr ''https://raft.example/mod''),
      (''modAuthorName'', JStr ''traxam''),
      (''modAuthorUrl'', JStr ''https://raft.example/u/1''),
      (''version'', JStr ''1.2.0''),
      (''changelog'', JStr ''Fixes''),
      (''initial'', JBool True)]"

definition sample_text :: string where
  \<open>sample_text = ''{"modTitle":"Raft Plus","modDescription":"More rafts","modBannerUrl":"https://raft.example/b.png","modIconUrl":"https://raft.example/i.png","modUrl":"https://raft.example/mod","modAuthorName":"traxam","modAuthorUrl":"https://raft.example/u/1","version":"1.2.0","changelog":"Fixes","initial":true}''\<close>

definition sample_configuration :: Configuration where
  "sample_configuration =
     \<lparr>environment = production, sentryDsn = '''', port = 8080, token = Some ''secret'',
      pingCooldown = 3600000,
      modVersionNotifications =
        \<lparr>ModVersionNotificationConfiguration.discordWebhookUrl = ''https://discord.example/mods'',
         ModVersionNotificationConfiguration.discordRolePingId = Some ''4711''\<rparr>,
      launcherVersionNotifications =
        \<lparr>LauncherVersionNotificationsConfiguration.name = ''Launcher'',
         downloadUrl = ''https://raft.example/download'',
         LauncherVersionNotificationsConfiguration.logoUrl = ''https://raft.example/logo.png'',
         LauncherVersionNotificationsConfiguration.discordWebhookUrl = ''https://discord.example/launcher'',
         LauncherVersionNotificationsConfiguration.discordRolePingId = None\<rparr>,
      loaderVersionNotifications =
        \<lparr>name = ''Loader'', logoUrl = ''https://raft.example/loader.png'',
         discordWebhookUrl = ''https://discord.example/loader'', discordRolePingId = Some ''4712''\<rparr>\<rparr>"

definition sample_version :: "(string \<times> json) list" where
  "sample_version =
     [(''initial'', JBool True),
      (''changelog'', JStr ''Fixes''),
      (''version'', JStr ''1.2.0''),
      (''modAuthorUrl'', JStr ''https://raft.example/u/1''),
      (''modAuthorName'', JStr ''traxam''),
      (''modUrl'', JStr ''https://raft.example/mod''),
      (''modIconUrl'', JStr ''https://raft.example/i.png''),
      (''modBannerUrl'', JStr ''https://raft.example/b.png''),
      (''modDescription'', JStr ''More rafts''),
      (''modTitle'', JStr ''Raft Plus'')]"

definition coerced_payload :: "(string \<times> json) list" where
  "coerced_payload = AList.update ''version'' (JNum ''2'') sample_payload"

definition string_initial_payload :: "(string \<times> json) list" where
  "string_initial_payload = AList.update ''initial'' (JStr ''true'') sample_payload"

definition ws_payload :: "(string \<times> json) list" where
  "ws_payload = AList.update ''modUrl'' (JStr ''ws://raft.example/mod'') sample_payload"

definition not_url_payload :: "(string \<times> json) list" where
  "not_url_payload = AList.update ''modUrl'' (JStr ''not a url'') sample_payload"

definition extra_payload :: "(string \<times> json) list" where
  "extra_payload = sample_payload @ [(''secret'', JStr ''hunter2'')]"

definition constructor_payload :: "(string \<times> json) list" where
  "constructor_payload = sample_payload @ [(''constructor'', JNum ''1'')]"


section \<open>The cast of one key\<close>

text \<open>What the cast gives for a key, \<open>undefined\<close> where it throws.\<close>

definition cast_value ::
  "bool \<Rightarrow> object_schema \<Rightarrow> (string \<times> json) list \<Rightarrow> string \<Rightarrow> json option" where
  "cast_value strip sch value prop =
     (case cast_prop strip sch value prop of Inl err \<Rightarrow> None | Inr fieldValue \<Rightarrow> fieldValue)"

text \<open>A field of the payload is cast without a throw to a value that has no error.\<close>

definition cast_ok :: "(string \<times> json) list \<Rightarrow> string \<Rightarrow> bool" where
  "cast_ok p key =
     (case map_of (schema_fields modVersionSchema) key of
        Some field \<Rightarrow>
          (case cast field (map_of p key) of
             Inl err \<Rightarrow> False
           | Inr fieldValue \<Rightarrow> field_error field fieldValue = None)
      | None \<Rightarrow> True)"

section \<open>The language of a pattern\<close>

text \<open>The test by derivatives decides membership in the language of the pattern.\<close>

lemma nullable_iff: "nullable r \<longleftrightarrow> [] \<in> lang r"
  by (induction r) (auto intro: star_nil)

lemma lang_alt: "lang (alt r s) = lang r \<union> lang s"
  by (induction r s rule: alt.induct) auto

lemma lang_cat: "lang (cat r s) = lang (Cat r s)"
  by (induction r s rule: cat.induct) auto

lemma lang_only: "lang (only b r) = (if b then lang r else {})"
  by (cases b) simp_all

lemma star_Cons:
  "c # w \<in> star A \<longleftrightarrow> (\<exists>u v. w = u @ v \<and> c # u \<in> A \<and> v \<in> star A)"
proof
  assume "c # w \<in> star A"
  then show "\<exists>u v. w = u @ v \<and> c # u \<in> A \<and> v \<in> star A"
  proof (induction "c # w" arbitrary: w rule: star.induct)
    case (star_app u v)
    show ?case
    proof (cases u)
      case Nil
      with star_app show ?thesis by simp
    next
      case (Cons d u')
      with star_app.hyps show ?thesis by auto
    qed
  qed
next
  assume "\<exists>u v. w = u @ v \<and> c # u \<in> A \<and> v \<in> star A"
  then obtain u v where "w = u @ v" "c # u \<in> A" "v \<in> star A" by blast
  then have "(c # u) @ v \<in> star A" by (intro star_app)
  with \<open>w = u @ v\<close> show "c # w \<in> star A" by simp
qed

lemma lang_deriv: "lang (deriv c r) = {w. c # w \<in> lang r}"
proof (induction r)
  case (Cat r s)
  show ?case
  proof (rule set_eqI)
    fix w
    have "c # w \<in> lang (Cat r s) \<longleftrightarrow>
        (\<exists>u v. w = u @ v \<and> c # u \<in> lang r \<and> v \<in> lang s) \<or> ([] \<in> lang r \<and> c # w \<in> lang s)"
      by (auto simp add: Cons_eq_append_conv)
    then show "w \<in> lang (deriv c (Cat r s)) \<longleftrightarrow> w \<in> {w. c # w \<in> lang (Cat r s)}"
      using Cat.IH by (auto simp add: lang_alt lang_cat lang_only nullable_iff)
  qed
next
  case (Rep r)
  then show ?case
    by (auto simp add: lang_cat star_Cons)
qed (auto simp add: lang_alt lang_only)

lemma regex_test_iff: "regex_test r w \<longleftrightarrow> w \<in> lang r"
proof -
  have "nullable (foldl (\<lambda>q c. deriv c q) r w) \<longleftrightarrow> w \<in> lang r"
    by (induction w arbitrary: r) (simp_all add: nullable_iff lang_deriv)
  then show ?thesis by (simp add: regex_test_def)
qed

lemma in_lang_Cat: "w \<in> lang (Cat r s) \<longleftrightarrow> (\<exists>u v. w = u @ v \<and> u \<in> lang r \<and> v \<in> lang s)"
  by auto

lemma in_lang_ch: "u \<in> lang (ch x) \<longleftrightarrow> (\<exists>c. u = [c] \<and> to_lower c = to_lower x)"
  by (auto simp add: ch_def)

lemma lang_opt: "lang (opt r) = insert [] (lang r)"
  by (auto simp add: opt_def)

lemma lit_Cons: "lit (x # t) = Cat (ch x) (lit t)"
  by (simp add: lit_def)

lemma in_lang_ch_Cat:
  "w \<in> lang (Cat (ch x) r) \<longleftrightarrow> (\<exists>c v. w = c # v \<and> to_lower c = to_lower x \<and> v \<in> lang r)"
proof
  assume "w \<in> lang (Cat (ch x) r)"
  then obtain u v where "w = u @ v" "u \<in> lang (ch x)" "v \<in> lang r"
    unfolding in_lang_Cat by blast
  then show "\<exists>c v. w = c # v \<and> to_lower c = to_lower x \<and> v \<in> lang r"
    unfolding in_lang_ch by auto
next
  assume "\<exists>c v. w = c # v \<and> to_lower c = to_lower x \<and> v \<in> lang r"
  then obtain c v where "w = [c] @ v" "to_lower c = to_lower x" "v \<in> lang r"
    by auto
  then show "w \<in> lang (Cat (ch x) r)"
    unfolding in_lang_Cat in_lang_ch by blast
qed

lemma in_lang_lit: "w \<in> lang (lit t) \<longleftrightarrow> map to_lower w = map to_lower t"
proof (induction t arbitrary: w)
  case Nil
  then show ?case by (simp add: lit_def)
next
  case (Cons x t)
  show ?case
    unfolding lit_Cons in_lang_ch_Cat Cons.IH by (cases w) auto
qed

lemma to_lower_literals:
  "map to_lower ''//'' = ''//''" "map to_lower ''http'' = ''http''"
  "map to_lower ''ftp'' = ''ftp''" "to_lower CHR ''s'' = CHR ''s''" "to_lower CHR '':'' = CHR '':''"
  by (simp_all add: to_lower_def char_code_def)

lemma in_lang_Cat_ch:
  "w \<in> lang (Cat r (ch x)) \<longleftrightarrow> (\<exists>a c. w = a @ [c] \<and> a \<in> lang r \<and> to_lower c = to_lower x)"
  unfolding in_lang_Cat in_lang_ch by blast

lemma map_eq_snoc:
  "map f a = ys @ [y] \<longleftrightarrow> (\<exists>h c. a = h @ [c] \<and> map f h = ys \<and> f c = y)"
proof (cases a rule: rev_cases)
  case Nil
  then show ?thesis by simp
next
  case (snoc h c)
  then show ?thesis by simp
qed

lemma optional_last:
  "(\<exists>h t. a = h @ t \<and> P h \<and> (t = [] \<or> (\<exists>c. t = [c] \<and> Q c))) \<longleftrightarrow>
     P a \<or> (\<exists>h c. a = h @ [c] \<and> P h \<and> Q c)"
proof
  assume "\<exists>h t. a = h @ t \<and> P h \<and> (t = [] \<or> (\<exists>c. t = [c] \<and> Q c))"
  then obtain h t where a: "a = h @ t" and h: "P h" and t: "t = [] \<or> (\<exists>c. t = [c] \<and> Q c)"
    by blast
  from t show "P a \<or> (\<exists>h c. a = h @ [c] \<and> P h \<and> Q c)"
  proof
    assume "t = []"
    with a h show ?thesis by simp
  next
    assume "\<exists>c. t = [c] \<and> Q c"
    with a h show ?thesis by blast
  qed
next
  assume "P a \<or> (\<exists>h c. a = h @ [c] \<and> P h \<and> Q c)"
  then show "\<exists>h t. a = h @ t \<and> P h \<and> (t = [] \<or> (\<exists>c. t = [c] \<and> Q c))"
  proof
    assume "P a"
    then have "a = a @ [] \<and> P a \<and> ([] = [] \<or> (\<exists>c. [] = [c] \<and> Q c))" by simp
    then show ?thesis by blast
  next
    assume "\<exists>h c. a = h @ [c] \<and> P h \<and> Q c"
    then show ?thesis by blast
  qed
qed

lemma in_lang_http:
  "a \<in> lang (Cat (lit ''http'') (opt (ch CHR ''s''))) \<longleftrightarrow>
     map to_lower a = ''http'' \<or> map to_lower a = ''https''"
proof -
  have "a \<in> lang (Cat (lit ''http'') (opt (ch CHR ''s''))) \<longleftrightarrow>
      (\<exists>h t. a = h @ t \<and> map to_lower h = ''http'' \<and>
         (t = [] \<or> (\<exists>c. t = [c] \<and> to_lower c = CHR ''s'')))"
    unfolding in_lang_Cat in_lang_lit lang_opt insert_iff in_lang_ch to_lower_literals ..
  also have "\<dots> \<longleftrightarrow> map to_lower a = ''http'' \<or>
      (\<exists>h c. a = h @ [c] \<and> map to_lower h = ''http'' \<and> to_lower c = CHR ''s'')"
    by (rule optional_last)
  also have "\<dots> \<longleftrightarrow> map to_lower a = ''http'' \<or> map to_lower a = ''http'' @ [CHR ''s'']"
    unfolding map_eq_snoc ..
  finally show ?thesis by simp
qed

lemma in_lang_url_scheme:
  "a \<in> lang url_scheme \<longleftrightarrow>
     map to_lower a = ''http'' \<or> map to_lower a = ''https'' \<or> map to_lower a = ''ftp''"
proof -
  have "a \<in> lang url_scheme \<longleftrightarrow>
      a \<in> lang (Cat (lit ''http'') (opt (ch CHR ''s''))) \<or> a \<in> lang (lit ''ftp'')"
    by (simp only: url_scheme_def lang.simps(4) Un_iff)
  then show ?thesis
    unfolding in_lang_http in_lang_lit to_lower_literals by (simp only: disj_assoc)
qed

lemma snoc_cases:
  "(\<exists>a c. u = a @ [c] \<and> (P a \<or> Q a \<or> R a) \<and> S c) \<longleftrightarrow>
     (\<exists>a c. u = a @ [c] \<and> P a \<and> S c) \<or> (\<exists>a c. u = a @ [c] \<and> Q a \<and> S c) \<or>
     (\<exists>a c. u = a @ [c] \<and> R a \<and> S c)"
  by blast

lemma scheme_literals:
  "''http'' @ '':'' = ''http:''" "''https'' @ '':'' = ''https:''" "''ftp'' @ '':'' = ''ftp:''"
  "''http'' @ ''s'' = ''https''"
  "''http:'' @ ''//'' = ''http://''" "''https:'' @ ''//'' = ''https://''"
  "''ftp:'' @ ''//'' = ''ftp://''"
  by simp_all

lemma in_lang_scheme_colon:
  "u \<in> lang (opt (Cat url_scheme (ch CHR '':''))) \<longleftrightarrow>
     u = [] \<or> map to_lower u = ''http:'' \<or> map to_lower u = ''https:'' \<or> map to_lower u = ''ftp:''"
proof -
  have "u \<in> lang (Cat url_scheme (ch CHR '':'')) \<longleftrightarrow>
      (\<exists>a c. u = a @ [c] \<and>
         (map to_lower a = ''http'' \<or> map to_lower a = ''https'' \<or> map to_lower a = ''ftp'') \<and>
         to_lower c = CHR '':'')"
    unfolding in_lang_Cat_ch in_lang_url_scheme to_lower_literals ..
  also have "\<dots> \<longleftrightarrow>
      (\<exists>a c. u = a @ [c] \<and> map to_lower a = ''http'' \<and> to_lower c = CHR '':'') \<or>
      (\<exists>a c. u = a @ [c] \<and> map to_lower a = ''https'' \<and> to_lower c = CHR '':'') \<or>
      (\<exists>a c. u = a @ [c] \<and> map to_lower a = ''ftp'' \<and> to_lower c = CHR '':'')"
    by (rule snoc_cases)
  also have "\<dots> \<longleftrightarrow> map to_lower u = ''http'' @ '':'' \<or> map to_lower u = ''https'' @ '':'' \<or>
      map to_lower u = ''ftp'' @ '':''"
    unfolding map_eq_snoc ..
  finally have "u \<in> lang (Cat url_scheme (ch CHR '':'')) \<longleftrightarrow>
      map to_lower u = ''http:'' \<or> map to_lower u = ''https:'' \<or> map to_lower u = ''ftp:''"
    unfolding scheme_literals .
  then show ?thesis
    by (simp only: lang_opt insert_iff)
qed

lemma map_eq_append_split:
  "(\<exists>u v. pre = u @ v \<and> map f u = x \<and> map f v = d) \<longleftrightarrow> map f pre = x @ d"
proof
  assume "\<exists>u v. pre = u @ v \<and> map f u = x \<and> map f v = d"
  then obtain u v where "pre = u @ v" "map f u = x" "map f v = d" by blast
  then show "map f pre = x @ d" by simp
next
  assume "map f pre = x @ d"
  then have "pre = take (length x) pre @ drop (length x) pre"
    "map f (take (length x) pre) = x" "map f (drop (length x) pre) = d"
    by (simp_all add: take_map [symmetric] drop_map [symmetric])
  then show "\<exists>u v. pre = u @ v \<and> map f u = x \<and> map f v = d" by blast
qed

lemma split_prefix:
  "(\<exists>u v. pre = u @ v \<and> (u = [] \<or> map f u = a \<or> map f u = b \<or> map f u = c) \<and> map f v = d) \<longleftrightarrow>
     map f pre = d \<or> map f pre = a @ d \<or> map f pre = b @ d \<or> map f pre = c @ d"
proof -
  have "(\<exists>u v. pre = u @ v \<and> (u = [] \<or> map f u = a \<or> map f u = b \<or> map f u = c) \<and> map f v = d) \<longleftrightarrow>
      (\<exists>u v. pre = u @ v \<and> map f u = [] \<and> map f v = d) \<or>
      (\<exists>u v. pre = u @ v \<and> map f u = a \<and> map f v = d) \<or>
      (\<exists>u v. pre = u @ v \<and> map f u = b \<and> map f v = d) \<or>
      (\<exists>u v. pre = u @ v \<and> map f u = c \<and> map f v = d)"
    unfolding map_is_Nil_conv by blast
  then show ?thesis
    unfolding map_eq_append_split by simp
qed

lemma in_lang_url_prefix:
  "pre \<in> lang (Cat (opt (Cat url_scheme (ch CHR '':''))) (lit ''//'')) \<longleftrightarrow>
     map to_lower pre \<in> set url_prefixes"
proof -
  have "pre \<in> lang (Cat (opt (Cat url_scheme (ch CHR '':''))) (lit ''//'')) \<longleftrightarrow>
      map to_lower pre = ''//'' \<or> map to_lower pre = ''http:'' @ ''//'' \<or>
      map to_lower pre = ''https:'' @ ''//'' \<or> map to_lower pre = ''ftp:'' @ ''//''"
    unfolding in_lang_Cat [of pre] in_lang_scheme_colon in_lang_lit to_lower_literals
    by (rule split_prefix)
  then show ?thesis
    unfolding scheme_literals url_prefixes_def by simp
qed

lemma lang_Cat_assoc: "lang (Cat r (Cat s t)) = lang (Cat (Cat r s) t)"
proof (rule set_eqI)
  fix w
  have "w \<in> lang (Cat r (Cat s t)) \<longleftrightarrow>
      (\<exists>u v x. w = u @ v @ x \<and> u \<in> lang r \<and> v \<in> lang s \<and> x \<in> lang t)"
    unfolding in_lang_Cat by blast
  also have "\<dots> \<longleftrightarrow> (\<exists>u v x. w = (u @ v) @ x \<and> u \<in> lang r \<and> v \<in> lang s \<and> x \<in> lang t)"
    by simp
  also have "\<dots> \<longleftrightarrow> w \<in> lang (Cat (Cat r s) t)"
    unfolding in_lang_Cat by blast
  finally show "w \<in> lang (Cat r (Cat s t)) \<longleftrightarrow> w \<in> lang (Cat (Cat r s) t)" .
qed

lemma is_url_iff:
  "is_url s \<longleftrightarrow>
     (\<exists>pre rest. s = pre @ rest \<and> map to_lower pre \<in> set url_prefixes \<and> regex_test url_rest rest)"
  unfolding is_url_def regex_test_iff rUrl_def lang_Cat_assoc in_lang_Cat [of s] in_lang_url_prefix ..

section \<open>Evaluating the patterns\<close>

lemmas regex_defs = regex_test_def ch_def char_range_def lit_def opt_def many1_def alts_def
  cats_def to_lower_def char_code_def

lemmas url_defs = rUrl_def url_rest_def url_scheme_def fragment_part_def query_part_def
  path_part_def pchar_def port_part_def hostname_def top_label_def tld_char_def
  domain_label_def label_char_def ipv4_def octet_def userinfo_def sub_delims_def
  pct_encoded_def unreserved_def ucschar_def digit_def alpha_def

lemma banner_is_url: "is_url ''https://raft.example/b.png''"
  by (simp add: is_url_def url_defs regex_defs)

lemma icon_is_url: "is_url ''https://raft.example/i.png''"
  by (simp add: is_url_def url_defs regex_defs)

lemma mod_is_url: "is_url ''https://raft.example/mod''"
  by (simp add: is_url_def url_defs regex_defs)

lemma author_is_url: "is_url ''https://raft.example/u/1''"
  by (simp add: is_url_def url_defs regex_defs)

lemma ws_is_not_url: "\<not> is_url ''ws://raft.example/mod''"
  by (simp add: is_url_def url_defs regex_defs)

lemma text_is_not_url: "\<not> is_url ''not a url''"
  by (simp add: is_url_def url_defs regex_defs)

lemma empty_is_not_url: "\<not> is_url []"
  by (simp add: is_url_def url_defs regex_defs)

lemma ws_is_url_of_any_scheme: "url_of_any_scheme ''ws://raft.example/mod''"
  by (simp add: url_of_any_scheme_def any_scheme_def url_defs regex_defs)

lemma true_is_not_url: "\<not> is_url ''true''"
  by (simp add: is_url_def url_defs regex_defs)

lemma false_is_not_url: "\<not> is_url ''false''"
  by (simp add: is_url_def url_defs regex_defs)

lemma cast_boolean_JBool: "cast_boolean (JBool b) = Inr (JBool b)"
  by (simp add: cast_boolean_def)

lemma cast_boolean_true: "cast_boolean (JStr ''true'') = Inr (JBool True)"
  by (simp add: cast_boolean_def regex_defs)

section \<open>Lists of optional results\<close>

lemma map_of_map_filter_Pair:
  "map_of (List.map_filter (\<lambda>p. map_option (Pair p) (g p)) ps) k =
     (if k \<in> set ps then g k else None)"
proof (induction ps)
  case Nil
  then show ?case by (simp add: List.map_filter_simps)
next
  case (Cons p ps)
  then show ?case by (cases "g p") (simp_all add: List.map_filter_simps)
qed

lemma map_filter_empty_iff:
  "List.map_filter g xs = [] \<longleftrightarrow> (\<forall>x\<in>set xs. g x = None)"
proof (induction xs)
  case Nil
  then show ?case by (simp add: List.map_filter_simps)
next
  case (Cons x xs)
  then show ?case by (cases "g x") (simp_all add: List.map_filter_simps)
qed

lemma map_filter_agree:
  "(\<And>x. x \<in> set xs \<Longrightarrow> g x = h x) \<Longrightarrow> List.map_filter g xs = List.map_filter h xs"
proof (induction xs)
  case Nil
  then show ?case by (simp add: List.map_filter_simps)
next
  case (Cons x xs)
  then show ?case by (cases "h x") (simp_all add: List.map_filter_simps)
qed

lemma map_filter_single:
  assumes "distinct xs" and "x0 \<in> set xs" and "g x0 = Some e"
    and "\<And>x. x \<in> set xs \<Longrightarrow> x \<noteq> x0 \<Longrightarrow> g x = None"
  shows "List.map_filter g xs = [e]"
  using assms
proof (induction xs)
  case Nil
  then show ?case by simp
next
  case (Cons x xs)
  show ?case
  proof (cases "x = x0")
    case True
    with Cons.prems have "\<forall>y\<in>set xs. g y = None" by auto
    then have "List.map_filter g xs = []" by (simp add: map_filter_empty_iff)
    with True Cons.prems(3) show ?thesis by (simp add: List.map_filter_simps)
  next
    case False
    with Cons.prems have "g x = None" and "x0 \<in> set xs" and "distinct xs" by auto
    moreover have "List.map_filter g xs = [e]"
      using Cons.IH [OF \<open>distinct xs\<close> \<open>x0 \<in> set xs\<close> Cons.prems(3)] Cons.prems(4) by simp
    ultimately show ?thesis by (simp add: List.map_filter_simps)
  qed
qed

lemma in_map_filter:
  "e \<in> set (List.map_filter g xs) \<Longrightarrow> \<exists>x\<in>set xs. g x = Some e"
proof (induction xs)
  case Nil
  then show ?case by (simp add: List.map_filter_simps)
next
  case (Cons x xs)
  then show ?case by (cases "g x") (auto simp add: List.map_filter_simps)
qed

section \<open>The cast of an object\<close>

text \<open>The cast of the keys succeeds when the cast of each key does, and then holds for
  a key what the cast of the key gives.\<close>

lemma cast_props_Inr_iff:
  "cast_props strip sch value props = Inr r \<longleftrightarrow>
     (\<forall>prop\<in>set props. \<exists>x. cast_prop strip sch value prop = Inr x) \<and>
     r = List.map_filter (\<lambda>prop. map_option (Pair prop) (cast_value strip sch value prop)) props"
proof (induction props arbitrary: r)
  case Nil
  then show ?case by (auto simp add: List.map_filter_simps)
next
  case (Cons key keys)
  show ?case
  proof (cases "cast_prop strip sch value key")
    case (Inl err)
    then show ?thesis by simp
  next
    case (Inr x)
    note x = this
    show ?thesis
    proof (cases "cast_props strip sch value keys")
      case (Inl err)
      with x Cons.IH show ?thesis by auto
    next
      case (Inr rest)
      with x Cons.IH [of rest] show ?thesis
        by (cases x) (auto simp add: List.map_filter_simps cast_value_def)
    qed
  qed
qed

lemma cast_props_Inl:
  "cast_props strip sch value props = Inl err \<Longrightarrow>
     \<exists>prop\<in>set props. cast_prop strip sch value prop = Inl err"
proof (induction props)
  case Nil
  then show ?case by simp
next
  case (Cons key keys)
  then show ?case
    by (auto split: sum.splits)
qed

lemma cast_throws_TypeError: "cast field x = Inl err \<Longrightarrow> \<exists>m. err = JsTypeError m"
proof (cases x)
  case None
  assume "cast field x = Inl err"
  with None show ?thesis by simp
next
  case (Some v)
  assume "cast field x = Inl err"
  with Some show ?thesis
    by (cases v; cases "ftype field")
      (auto simp add: cast_boolean_def split: option.splits if_splits sum.splits)
qed

lemma cast_prop_throws_TypeError:
  "cast_prop strip sch value prop = Inl err \<Longrightarrow> \<exists>m. err = JsTypeError m"
  by (auto simp add: cast_prop_def split: property.splits dest: cast_throws_TypeError)

lemma cast_value_absent:
  assumes "k \<notin> set (nodes sch)" and "k \<notin> fst ` set value"
    and "set (map fst (schema_fields sch)) = set (nodes sch)"
  shows "cast_value strip sch value k = None"
proof -
  from assms(2) have v: "map_of value k = None"
    by (simp add: map_of_eq_None_iff)
  from assms(1,3) have "k \<notin> fst ` set (schema_fields sch)"
    by simp
  then have "map_of (schema_fields sch) k = None"
    by (simp add: map_of_eq_None_iff)
  with v show ?thesis by (simp add: cast_value_def cast_prop_def get_field_def)
qed

lemma in_props_of:
  "k \<in> set (props_of sch value) \<longleftrightarrow> k \<in> set (nodes sch) \<or> k \<in> fst ` set value"
  unfolding props_of_def by auto

lemma map_of_intermediateValue:
  assumes "set (map fst (schema_fields sch)) = set (nodes sch)"
    and "intermediateValue strip sch value = Inr im"
  shows "map_of im k = cast_value strip sch value k"
proof -
  from assms(2) have im: "im = List.map_filter
      (\<lambda>prop. map_option (Pair prop) (cast_value strip sch value prop)) (props_of sch value)"
    by (simp add: intermediateValue_def cast_props_Inr_iff)
  show ?thesis
  proof (cases "k \<in> set (props_of sch value)")
    case True
    then show ?thesis
      unfolding im by (simp add: map_of_map_filter_Pair)
  next
    case False
    then have "cast_value strip sch value k = None"
      using cast_value_absent [OF _ _ assms(1)] in_props_of by blast
    with False show ?thesis
      unfolding im by (simp add: map_of_map_filter_Pair)
  qed
qed

lemma object_cast_Inr_iff:
  "(\<exists>v. object_cast strip sch value = Inr v) \<longleftrightarrow>
     (\<forall>prop\<in>set (props_of sch value). \<exists>x. cast_prop strip sch value prop = Inr x)"
proof (cases "cast_props strip sch value (props_of sch value)")
  case (Inl err)
  from cast_props_Inl [OF this] obtain key where
    "key \<in> set (props_of sch value)" and "cast_prop strip sch value key = Inl err"
    by blast
  then have "\<not> (\<forall>prop\<in>set (props_of sch value). \<exists>x. cast_prop strip sch value prop = Inr x)"
    by force
  with Inl show ?thesis
    by (simp add: object_cast_def intermediateValue_def)
next
  case (Inr r)
  then have "\<forall>prop\<in>set (props_of sch value). \<exists>x. cast_prop strip sch value prop = Inr x"
    by (simp add: cast_props_Inr_iff)
  with Inr show ?thesis
    by (simp add: object_cast_def intermediateValue_def)
qed

lemma object_cast_Inl:
  "object_cast strip sch value = Inl err \<Longrightarrow>
     \<exists>prop\<in>set (props_of sch value). cast_prop strip sch value prop = Inl err"
  by (auto simp add: object_cast_def intermediateValue_def split: sum.splits dest: cast_props_Inl)

lemma map_of_object_cast:
  assumes "set (map fst (schema_fields sch)) = set (nodes sch)"
    and "object_cast strip sch value = Inr v"
  shows "map_of v k = cast_value strip sch value k"
proof -
  from assms(2) obtain im where im: "intermediateValue strip sch value = Inr im"
    and v: "v = (if isChanged sch value im then im else value)"
    by (auto simp add: object_cast_def split: sum.splits)
  show ?thesis
  proof (cases "isChanged sch value im")
    case True
    with v show ?thesis
      by (simp add: map_of_intermediateValue [OF assms(1) im])
  next
    case False
    then have same: "\<And>prop. prop \<in> set (props_of sch value) \<Longrightarrow>
        map_of value prop = cast_value strip sch value prop"
      by (simp add: isChanged_def list_ex_iff map_of_intermediateValue [OF assms(1) im])
    have "map_of value k = cast_value strip sch value k"
    proof (cases "k \<in> set (props_of sch value)")
      case True
      then show ?thesis by (rule same)
    next
      case False
      then have "k \<notin> set (nodes sch)" and nk: "k \<notin> fst ` set value"
        by (simp_all add: in_props_of)
      then have "cast_value strip sch value k = None"
        by (rule cast_value_absent [OF _ _ assms(1)])
      moreover from nk have "map_of value k = None"
        by (simp add: map_of_eq_None_iff)
      ultimately show ?thesis by simp
    qed
    with False v show ?thesis
      by simp
  qed
qed

section \<open>The errors of an object\<close>

lemma field_ok_iff:
  "field_ok sch value key \<longleftrightarrow>
     type_error_at sch value key = None \<and> test_error_at sch value key = None"
  by (simp add: field_ok_def type_error_at_def test_error_at_def field_error_def
      split: option.split)

lemma field_error_at:
  assumes "map_of (schema_fields sch) key = Some field"
    and "field_error field (map_of value key) = Some et"
  shows "type_error_at sch value key = Some \<lparr>path = Some key, type = et\<rparr> \<and>
           test_error_at sch value key = None \<or>
         type_error_at sch value key = None \<and>
           test_error_at sch value key = Some \<lparr>path = Some key, type = et\<rparr>"
proof (cases "typeError field (map_of value key)")
  case True
  with assms show ?thesis
    by (simp add: type_error_at_def test_error_at_def field_error_def)
next
  case False
  with assms show ?thesis
    by (auto simp add: type_error_at_def test_error_at_def field_error_def)
qed

lemma error_at_path:
  "type_error_at sch value key = Some e \<or> test_error_at sch value key = Some e \<Longrightarrow>
     path e = Some key"
  by (auto simp add: type_error_at_def test_error_at_def split: option.splits if_splits)

lemma no_errors_iff:
  "type_errors sch value @ test_errors sch value = [] \<longleftrightarrow>
     (\<forall>key\<in>set (nodes sch). field_ok sch value key)"
  unfolding append_is_Nil_conv type_errors_def test_errors_def map_filter_empty_iff field_ok_iff
  by blast

lemma validate_Inr_iff:
  "validate parse sch strip (JObj obj) = Inr v \<longleftrightarrow>
     object_cast strip sch obj = Inr v \<and> (\<forall>key\<in>set (nodes sch). field_ok sch v key)"
proof (cases "object_cast strip sch obj")
  case (Inl err)
  then show ?thesis by (simp add: validate_def)
next
  case (Inr casted)
  show ?thesis
  proof (cases "type_errors sch casted @ test_errors sch casted")
    case Nil
    with Inr have "validate parse sch strip (JObj obj) = Inr casted"
      by (simp add: validate_def)
    with Nil Inr show ?thesis
      unfolding no_errors_iff by auto
  next
    case (Cons e es)
    with Inr have "validate parse sch strip (JObj obj) = Inl (Validation e)"
      by (simp add: validate_def)
    with Cons Inr show ?thesis
      using no_errors_iff [of sch casted] by auto
  qed
qed

lemma validate_Inl_TypeError:
  assumes "validate parse sch strip (JObj obj) = Inl (JsTypeError m)"
  shows "object_cast strip sch obj = Inl (JsTypeError m)"
proof (cases "object_cast strip sch obj")
  case (Inl err)
  with assms show ?thesis by (simp add: validate_def)
next
  case (Inr casted)
  with assms show ?thesis
    by (cases "type_errors sch casted @ test_errors sch casted") (simp_all add: validate_def)
qed

lemma validate_Inl_cases:
  assumes "validate parse sch strip (JObj obj) = Inl err"
  shows "(\<exists>m. err = JsTypeError m \<and> object_cast strip sch obj = Inl err) \<or>
         (\<exists>e casted. err = Validation e \<and> object_cast strip sch obj = Inr casted)"
proof (cases "object_cast strip sch obj")
  case (Inl err')
  with assms have "err' = err" by (simp add: validate_def)
  with Inl obtain key where "cast_prop strip sch obj key = Inl err"
    by (blast dest: object_cast_Inl)
  then have "\<exists>m. err = JsTypeError m" by (rule cast_prop_throws_TypeError)
  with Inl \<open>err' = err\<close> show ?thesis by simp
next
  case (Inr casted)
  with assms show ?thesis
    by (cases "type_errors sch casted @ test_errors sch casted") (auto simp add: validate_def)
qed

lemma validate_Inl_names_field:
  assumes "validate parse sch strip (JObj obj) = Inl (Validation e)"
  shows "\<exists>casted. object_cast strip sch obj = Inr casted \<and>
    (\<exists>key\<in>set (nodes sch). path e = Some key \<and> \<not> field_ok sch casted key)"
proof -
  from validate_Inl_cases [OF assms] obtain casted where
    casted: "object_cast strip sch obj = Inr casted"
    by auto
  with assms obtain es where eq: "type_errors sch casted @ test_errors sch casted = e # es"
    by (cases "type_errors sch casted @ test_errors sch casted") (simp_all add: validate_def)
  have "e \<in> set (e # es)" by simp
  then have "e \<in> set (type_errors sch casted @ test_errors sch casted)"
    unfolding eq .
  then have "e \<in> set (type_errors sch casted) \<or> e \<in> set (test_errors sch casted)"
    by simp
  then obtain key where key: "key \<in> set (nodes sch)" and
    at: "type_error_at sch casted key = Some e \<or> test_error_at sch casted key = Some e"
    unfolding type_errors_def test_errors_def by (blast dest: in_map_filter)
  from at have "path e = Some key" by (rule error_at_path)
  moreover from at have "\<not> field_ok sch casted key"
    unfolding field_ok_iff by auto
  ultimately show ?thesis using key casted by blast
qed

lemma validate_single_error:
  assumes d: "distinct (nodes sch)" and k0: "k0 \<in> set (nodes sch)"
    and f0: "map_of (schema_fields sch) k0 = Some field0"
    and v: "object_cast strip sch obj = Inr casted"
    and e0: "field_error field0 (map_of casted k0) = Some et"
    and others: "\<And>key. key \<in> set (nodes sch) \<Longrightarrow> key \<noteq> k0 \<Longrightarrow> field_ok sch casted key"
  shows "validate parse sch strip (JObj obj) = Inl (Validation \<lparr>path = Some k0, type = et\<rparr>)"
proof -
  let ?v = casted
  let ?e = "\<lparr>path = Some k0, type = et\<rparr>"
  have o1: "type_error_at sch ?v key = None" if "key \<in> set (nodes sch)" "key \<noteq> k0" for key
    using others [OF that] unfolding field_ok_iff by (rule conjunct1)
  have o2: "test_error_at sch ?v key = None" if "key \<in> set (nodes sch)" "key \<noteq> k0" for key
    using others [OF that] unfolding field_ok_iff by (rule conjunct2)
  from field_error_at [OF f0 e0] have "type_errors sch ?v @ test_errors sch ?v = [?e]"
  proof
    assume a: "type_error_at sch ?v k0 = Some ?e \<and> test_error_at sch ?v k0 = None"
    then have "type_errors sch ?v = [?e]"
      unfolding type_errors_def using o1 by (intro map_filter_single [OF d k0]) blast+
    moreover from a o2 have "\<forall>key\<in>set (nodes sch). test_error_at sch ?v key = None"
      by blast
    then have "test_errors sch ?v = []"
      unfolding test_errors_def map_filter_empty_iff .
    ultimately show ?thesis by simp
  next
    assume a: "type_error_at sch ?v k0 = None \<and> test_error_at sch ?v k0 = Some ?e"
    then have "test_errors sch ?v = [?e]"
      unfolding test_errors_def using o2 by (intro map_filter_single [OF d k0]) blast+
    moreover from a o1 have "\<forall>key\<in>set (nodes sch). type_error_at sch ?v key = None"
      by blast
    then have "type_errors sch ?v = []"
      unfolding type_errors_def map_filter_empty_iff .
    ultimately show ?thesis by simp
  qed
  with v show ?thesis by (simp add: validate_def)
qed

section \<open>The mod version schema\<close>

lemma nodes_modVersionSchema: "nodes modVersionSchema = rev field_names"
  by (simp add: modVersionSchema_def shape_def field_names_def)

lemma keys_shape: "set (map fst (schema_fields (shape fs))) = set (nodes (shape fs))"
  by (simp add: shape_def)

lemma keys_modVersionSchema:
  "set (map fst (schema_fields modVersionSchema)) = set (nodes modVersionSchema)"
  unfolding modVersionSchema_def by (rule keys_shape)

lemma distinct_nodes_modVersionSchema: "distinct (nodes modVersionSchema)"
  by (simp add: modVersionSchema_def shape_def)

lemma schema_fields_modVersionSchema:
  "schema_fields modVersionSchema =
     [(''modTitle'', required string_schema),
      (''modDescription'', required string_schema),
      (''modBannerUrl'', required (url string_schema)),
      (''modIconUrl'', required (url string_schema)),
      (''modUrl'', required (url string_schema)),
      (''modAuthorName'', required string_schema),
      (''modAuthorUrl'', required (url string_schema)),
      (''version'', required string_schema),
      (''changelog'', required string_schema),
      (''initial'', required boolean_schema)]"
  by (simp add: modVersionSchema_def shape_def)

lemma text_field_ok:
  "(case cast (required string_schema) x of
      Inl err \<Rightarrow> False
    | Inr v \<Rightarrow> field_error (required string_schema) v = None) \<longleftrightarrow> text_ok x"
proof (cases x)
  case None
  then show ?thesis by (simp add: field_error_def string_schema_def)
next
  case (Some v)
  then show ?thesis
    by (cases v) (simp_all add: field_error_def string_schema_def split: option.split)
qed

lemma url_field_ok:
  "(case cast (required (url string_schema)) x of
      Inl err \<Rightarrow> False
    | Inr v \<Rightarrow> field_error (required (url string_schema)) v = None) \<longleftrightarrow> url_ok x"
proof (cases x)
  case None
  then show ?thesis by (simp add: field_error_def string_schema_def)
next
  case (Some v)
  have "s \<noteq> []" if "is_url s" for s
    using that empty_is_not_url by auto
  with Some show ?thesis
    by (cases v)
      (auto simp add: field_error_def string_schema_def true_is_not_url false_is_not_url
        split: option.split)
qed

lemma url_ok_text_ok: "url_ok x \<Longrightarrow> text_ok x"
  using empty_is_not_url by (induction x rule: url_ok.induct) auto

lemma boolean_words_iff:
  "regex_test (Alt (lit ''true'') (lit ''1'')) t \<or> regex_test (Alt (lit ''false'') (lit ''0'')) t
     \<longleftrightarrow> map to_lower t \<in> set boolean_words"
proof -
  have "map to_lower ''true'' = ''true''" "map to_lower ''1'' = ''1''"
    "map to_lower ''false'' = ''false''" "map to_lower ''0'' = ''0''"
    by (simp_all add: to_lower_def char_code_def)
  then show ?thesis
    unfolding regex_test_iff lang.simps Un_iff in_lang_lit boolean_words_def
    by (simp only: list.set insert_iff empty_iff simp_thms disj_assoc)
qed

lemma comma_not_boolean_word:
  assumes "CHR '','' \<in> set t"
  shows "map to_lower t \<notin> set boolean_words"
proof
  assume "map to_lower t \<in> set boolean_words"
  moreover from assms have "to_lower CHR '','' \<in> set (map to_lower t)"
    by simp
  ultimately have "to_lower CHR '','' \<in> set ''true1false0''"
    unfolding boolean_words_def by auto
  then show False
    by (simp add: to_lower_def char_code_def)
qed

lemma those_Cons_Cons:
  "those (a # b # cs) = Some ts \<Longrightarrow> \<exists>x y zs. ts = x # y # zs"
  by (auto split: option.splits)

lemma comma_in_join: "CHR '','' \<in> set (join (x # y # zs))"
  by simp

lemma js_String_many:
  assumes "js_String (JArr (x # y # zs)) = Some t"
  shows "CHR '','' \<in> set t"
proof -
  from assms obtain ts where
    ts: "those (map (\<lambda>x. case x of JNull \<Rightarrow> Some [] | _ \<Rightarrow> js_String x) (x # y # zs)) = Some ts"
    and t: "t = join ts"
    by auto
  from ts have "\<exists>a b cs. ts = a # b # cs"
    unfolding list.map by (rule those_Cons_Cons)
  with t show ?thesis
    using comma_in_join by auto
qed

lemma js_String_single:
  "js_String (JArr [x]) = (if x = JNull then Some [] else js_String x)"
proof -
  let ?f = "\<lambda>x. case x of JNull \<Rightarrow> Some [] | _ \<Rightarrow> js_String x"
  have "js_String (JArr [x]) = map_option join (those [?f x])"
    by simp
  also have "\<dots> = ?f x"
    by (cases "?f x") simp_all
  also have "\<dots> = (if x = JNull then Some [] else js_String x)"
    by (cases x) simp_all
  finally show ?thesis .
qed

lemma boolean_like_iff:
  "boolean_like v \<longleftrightarrow> (\<exists>t. js_String v = Some t \<and> map to_lower t \<in> set boolean_words)"
proof (induction v rule: boolean_like.induct)
  case (1 b)
  then show ?case by (simp add: boolean_words_def to_lower_def char_code_def)
next
  case (2 s)
  then show ?case by simp
next
  case (3 s)
  then show ?case by simp
next
  case (4 x)
  show ?case
  proof (cases "x = JNull")
    case True
    then show ?thesis
      unfolding js_String_single by (simp add: boolean_words_def)
  next
    case False
    with 4 show ?thesis
      unfolding js_String_single by simp
  qed
next
  case 5
  then show ?case by (simp add: boolean_words_def)
next
  case (6 x y zs)
  have "\<not> (\<exists>t. js_String (JArr (x # y # zs)) = Some t \<and> map to_lower t \<in> set boolean_words)"
    using js_String_many comma_not_boolean_word by blast
  then show ?case by simp
next
  case 7
  then show ?case by (simp add: boolean_words_def to_lower_def char_code_def)
next
  case (8 kvs)
  then show ?case by (simp add: boolean_words_def to_lower_def char_code_def)
qed

lemma cast_boolean_cases:
  "(case cast_boolean v of Inl err \<Rightarrow> False | Inr w \<Rightarrow> isType TBoolean w) \<longleftrightarrow> boolean_like v"
proof (cases "\<exists>b. v = JBool b")
  case True
  then show ?thesis by (auto simp add: cast_boolean_def)
next
  case False
  then have nb: "\<not> isType TBoolean v"
    by (cases v) simp_all
  have unfold: "cast_boolean v =
      (case js_String v of
         None \<Rightarrow> Inl (JsTypeError ''Cannot convert object to primitive value'')
       | Some text \<Rightarrow>
           Inr (if regex_test (Alt (lit ''true'') (lit ''1'')) text then JBool True
                else if regex_test (Alt (lit ''false'') (lit ''0'')) text then JBool False
                else v))"
    using False by (cases v) (auto simp add: cast_boolean_def simp del: js_String.simps split: option.split)
  show ?thesis
  proof (cases "js_String v")
    case None
    then show ?thesis
      unfolding unfold by (simp add: boolean_like_iff)
  next
    case (Some t)
    have "(case cast_boolean v of Inl err \<Rightarrow> False | Inr w \<Rightarrow> isType TBoolean w) \<longleftrightarrow>
        regex_test (Alt (lit ''true'') (lit ''1'')) t \<or> regex_test (Alt (lit ''false'') (lit ''0'')) t"
      unfolding unfold Some using nb by simp
    also have "\<dots> \<longleftrightarrow> map to_lower t \<in> set boolean_words"
      by (rule boolean_words_iff)
    also have "\<dots> \<longleftrightarrow> boolean_like v"
      using Some by (simp add: boolean_like_iff)
    finally show ?thesis .
  qed
qed

lemma boolean_field_ok:
  "(case cast (required boolean_schema) x of
      Inl err \<Rightarrow> False
    | Inr v \<Rightarrow> field_error (required boolean_schema) v = None) \<longleftrightarrow> boolean_ok x"
proof (cases x)
  case None
  then show ?thesis by (simp add: field_error_def boolean_schema_def)
next
  case (Some v)
  have "field_error (required boolean_schema) (Some w) = None \<longleftrightarrow> isType TBoolean w" for w
    by (cases w) (simp_all add: field_error_def boolean_schema_def)
  then have "(case cast (required boolean_schema) (Some v) of
      Inl err \<Rightarrow> False
    | Inr v \<Rightarrow> field_error (required boolean_schema) v = None) \<longleftrightarrow>
    (case cast_boolean v of Inl err \<Rightarrow> False | Inr w \<Rightarrow> isType TBoolean w)"
    by (cases "cast_boolean v") (simp_all add: boolean_schema_def)
  with Some show ?thesis
    by (simp only: cast_boolean_cases boolean_ok.simps)
qed

lemma cast_ok_fields:
  "cast_ok p ''modTitle'' = text_ok (map_of p ''modTitle'')"
  "cast_ok p ''modDescription'' = text_ok (map_of p ''modDescription'')"
  "cast_ok p ''modBannerUrl'' = url_ok (map_of p ''modBannerUrl'')"
  "cast_ok p ''modIconUrl'' = url_ok (map_of p ''modIconUrl'')"
  "cast_ok p ''modUrl'' = url_ok (map_of p ''modUrl'')"
  "cast_ok p ''modAuthorName'' = text_ok (map_of p ''modAuthorName'')"
  "cast_ok p ''modAuthorUrl'' = url_ok (map_of p ''modAuthorUrl'')"
  "cast_ok p ''version'' = text_ok (map_of p ''version'')"
  "cast_ok p ''changelog'' = text_ok (map_of p ''changelog'')"
  "cast_ok p ''initial'' = boolean_ok (map_of p ''initial'')"
  unfolding cast_ok_def schema_fields_modVersionSchema
  by (simp_all only: map_of.simps fst_conv snd_conv list.inject char.inject
        text_field_ok url_field_ok boolean_field_ok option.case simp_thms if_True if_False fun_upd_apply)

lemma acceptable_iff_cast_ok:
  "acceptable_payload p \<longleftrightarrow> (\<forall>key\<in>set field_names. cast_ok p key)"
  unfolding acceptable_payload_def
  using url_ok_text_ok
  by (simp add: field_names_def string_fields_def url_fields_def cast_ok_fields) blast

lemma field_of_name:
  "f \<in> set field_names \<Longrightarrow>
     \<exists>field. map_of (schema_fields modVersionSchema) f = Some field \<and>
       cast field None = Inr None \<and> field_error field None = Some RequiredError"
  by (auto simp add: field_names_def schema_fields_modVersionSchema field_error_def
      string_schema_def boolean_schema_def)

lemma not_field_name:
  "f \<notin> set field_names \<Longrightarrow> map_of (schema_fields modVersionSchema) f = None"
  by (simp add: field_names_def schema_fields_modVersionSchema)

lemma field_name_not_inherited: "f \<in> set field_names \<Longrightarrow> f \<notin> set Object_prototype"
  by (auto simp add: field_names_def Object_prototype_def)

lemma cast_prop_field:
  assumes "map_of (schema_fields modVersionSchema) key = Some field"
  shows "cast_prop strip modVersionSchema p key = cast field (map_of p key)"
  using assms by (simp add: cast_prop_def get_field_def)

lemma cast_prop_unknown:
  assumes "key \<notin> set field_names"
  shows "cast_prop True modVersionSchema p key =
    (if key \<in> set Object_prototype then Inl (JsTypeError ''field.resolve is not a function'')
     else Inr None)"
  using not_field_name [OF assms] by (simp add: cast_prop_def get_field_def)

lemma cast_ok_casts:
  assumes "key \<in> set field_names" and "cast_ok p key"
  shows "\<exists>x. cast_prop True modVersionSchema p key = Inr x"
proof -
  from field_of_name [OF assms(1)] obtain field where
    field: "map_of (schema_fields modVersionSchema) key = Some field"
    by blast
  with assms(2) show ?thesis
    unfolding cast_prop_field [OF field] by (simp add: cast_ok_def split: sum.splits)
qed

lemma plain_keys_iff: "plain_keys p \<longleftrightarrow> (\<forall>key\<in>fst ` set p. key \<notin> set Object_prototype)"
  by (simp add: plain_keys_def list_all_iff)

text \<open>The cast of a payload throws when a key of the payload is the name of an inherited
  member, or when the cast of a field does.\<close>

lemma object_cast_modVersionSchema:
  "(\<exists>v. object_cast True modVersionSchema p = Inr v) \<longleftrightarrow>
     plain_keys p \<and>
     (\<forall>key\<in>set field_names. \<exists>x. cast_prop True modVersionSchema p key = Inr x)"
    (is "?l \<longleftrightarrow> ?r")
proof
  assume ?l
  then have all: "\<And>key. key \<in> set (props_of modVersionSchema p) \<Longrightarrow>
      \<exists>x. cast_prop True modVersionSchema p key = Inr x"
    unfolding object_cast_Inr_iff by blast
  have "key \<notin> set Object_prototype" if "key \<in> fst ` set p" for key
  proof (cases "key \<in> set field_names")
    case True
    then show ?thesis by (rule field_name_not_inherited)
  next
    case False
    from that have "key \<in> set (props_of modVersionSchema p)"
      by (simp add: in_props_of)
    from all [OF this] show ?thesis
      unfolding cast_prop_unknown [OF False] by (simp split: if_splits)
  qed
  then have "plain_keys p"
    unfolding plain_keys_iff by blast
  moreover have "\<exists>x. cast_prop True modVersionSchema p key = Inr x"
    if "key \<in> set field_names" for key
    using that by (intro all) (simp add: in_props_of nodes_modVersionSchema)
  ultimately show ?r by blast
next
  assume r: ?r
  have "\<exists>x. cast_prop True modVersionSchema p key = Inr x"
    if "key \<in> set (props_of modVersionSchema p)" for key
  proof (cases "key \<in> set field_names")
    case True
    with r show ?thesis by blast
  next
    case False
    with that have "key \<in> fst ` set p"
      by (simp add: in_props_of nodes_modVersionSchema)
    with r have "key \<notin> set Object_prototype"
      unfolding plain_keys_iff by blast
    then show ?thesis
      unfolding cast_prop_unknown [OF False] by simp
  qed
  then show ?l
    unfolding object_cast_Inr_iff by blast
qed

lemma field_ok_cast_ok:
  assumes v: "object_cast True modVersionSchema p = Inr v" and key: "key \<in> set field_names"
  shows "field_ok modVersionSchema v key \<longleftrightarrow> cast_ok p key"
proof -
  from field_of_name [OF key] obtain field where
    field: "map_of (schema_fields modVersionSchema) key = Some field"
    by blast
  from v key obtain x where x: "cast_prop True modVersionSchema p key = Inr x"
    using object_cast_modVersionSchema [of p] by blast
  then have "map_of v key = x"
    by (simp add: map_of_object_cast [OF keys_modVersionSchema v] cast_value_def)
  moreover from x have "cast field (map_of p key) = Inr x"
    by (simp add: cast_prop_field [OF field])
  ultimately show ?thesis
    using field by (simp add: field_ok_def cast_ok_def)
qed

lemma validateModVersion_Inr_iff:
  "validateModVersion parse (JObj p) = Inr version \<longleftrightarrow>
     object_cast True modVersionSchema p = Inr version \<and> acceptable_payload p"
  unfolding validateModVersion_def validate_Inr_iff acceptable_iff_cast_ok nodes_modVersionSchema
  using field_ok_cast_ok [of p version] by auto

lemma acceptable_casts:
  assumes "plain_keys p" and "acceptable_payload p"
  shows "\<exists>version. object_cast True modVersionSchema p = Inr version"
  using assms unfolding object_cast_modVersionSchema acceptable_iff_cast_ok
  by (blast intro: cast_ok_casts)

lemma accepted_iff:
  "(\<exists>version. validateModVersion parse (JObj p) = Inr version) \<longleftrightarrow>
     plain_keys p \<and> acceptable_payload p"
proof
  assume "\<exists>version. validateModVersion parse (JObj p) = Inr version"
  then obtain version where "object_cast True modVersionSchema p = Inr version"
    and "acceptable_payload p"
    unfolding validateModVersion_Inr_iff by blast
  then show "plain_keys p \<and> acceptable_payload p"
    using object_cast_modVersionSchema [of p] by blast
next
  assume a: "plain_keys p \<and> acceptable_payload p"
  then obtain version where "object_cast True modVersionSchema p = Inr version"
    using acceptable_casts by blast
  with a show "\<exists>version. validateModVersion parse (JObj p) = Inr version"
    unfolding validateModVersion_Inr_iff by blast
qed

lemma validateModVersion_coerce:
  "validateModVersion parse input =
     (case coerce parse input of
        JObj p \<Rightarrow> validateModVersion parse (JObj p)
      | _ \<Rightarrow> Inl (Validation \<lparr>path = None, type = TypeError\<rparr>))"
  by (simp add: validateModVersion_def validate_def split: json.split)

lemma rejected_iff_not_accepted:
  "(\<exists>err. validateModVersion parse input = Inl err) \<longleftrightarrow>
     \<not> (\<exists>version. validateModVersion parse input = Inr version)"
  by (cases "validateModVersion parse input") simp_all

lemma not_plain_throws:
  assumes "\<not> plain_keys p"
  shows "\<exists>m. validateModVersion parse (JObj p) = Inl (JsTypeError m)"
proof -
  from assms have "\<not> (\<exists>v. object_cast True modVersionSchema p = Inr v)"
    unfolding object_cast_modVersionSchema by simp
  then obtain err where err: "object_cast True modVersionSchema p = Inl err"
    by (cases "object_cast True modVersionSchema p") auto
  then obtain key where "cast_prop True modVersionSchema p key = Inl err"
    by (blast dest: object_cast_Inl)
  then obtain m where "err = JsTypeError m"
    by (blast dest: cast_prop_throws_TypeError)
  with err show ?thesis
    by (simp add: validateModVersion_def validate_def)
qed

section \<open>The sample payloads\<close>

lemmas cast_defs = object_cast_def isChanged_def intermediateValue_def props_of_def cast_prop_def
  get_field_def Object_prototype_def nodes_modVersionSchema schema_fields_modVersionSchema
  field_names_def string_schema_def boolean_schema_def cast_boolean_JBool

lemma well_typed_sample: "well_typed_payload sample_payload"
  by (simp add: well_typed_payload_def sample_payload_def string_fields_def url_fields_def
      banner_is_url icon_is_url mod_is_url author_is_url)

lemma acceptable_sample: "acceptable_payload sample_payload"
  by (simp add: acceptable_payload_def sample_payload_def string_fields_def url_fields_def
      banner_is_url icon_is_url mod_is_url author_is_url)

lemma plain_sample: "plain_keys sample_payload"
  by (simp add: plain_keys_def sample_payload_def Object_prototype_def)

lemma sample_unchanged: "object_cast True modVersionSchema sample_payload = Inr sample_payload"
  by (simp add: cast_defs sample_payload_def)

lemma sample_accepted: "validateModVersion parse (JObj sample_payload) = Inr sample_payload"
  by (simp add: validateModVersion_Inr_iff acceptable_sample sample_unchanged)

lemma object_cast_coerced:
  "object_cast True modVersionSchema coerced_payload =
     Inr [(''initial'', JBool True),
      (''changelog'', JStr ''Fixes''),
      (''version'', JStr ''2''),
      (''modAuthorUrl'', JStr ''https://raft.example/u/1''),
      (''modAuthorName'', JStr ''traxam''),
      (''modUrl'', JStr ''https://raft.example/mod''),
      (''modIconUrl'', JStr ''https://raft.example/i.png''),
      (''modBannerUrl'', JStr ''https://raft.example/b.png''),
      (''modDescription'', JStr ''More rafts''),
      (''modTitle'', JStr ''Raft Plus'')]"
  by (simp add: cast_defs coerced_payload_def sample_payload_def)

lemma acceptable_coerced: "acceptable_payload coerced_payload"
  by (simp add: acceptable_payload_def coerced_payload_def sample_payload_def string_fields_def
      url_fields_def banner_is_url icon_is_url mod_is_url author_is_url)

lemma object_cast_ws:
  "object_cast True modVersionSchema ws_payload = Inr ws_payload"
  by (simp add: cast_defs ws_payload_def sample_payload_def)

lemma cast_ok_ws_others:
  assumes "key \<in> set (nodes modVersionSchema)" and "key \<noteq> ''modUrl''"
  shows "cast_ok ws_payload key"
proof -
  from assms have "key \<in> {''initial'', ''changelog'', ''version'', ''modAuthorUrl'',
      ''modAuthorName'', ''modIconUrl'', ''modBannerUrl'', ''modDescription'', ''modTitle''}"
    by (simp add: nodes_modVersionSchema field_names_def)
  then show ?thesis
    by (auto simp add: cast_ok_fields ws_payload_def sample_payload_def
        banner_is_url icon_is_url author_is_url)
qed

lemma object_cast_extra: "object_cast True modVersionSchema extra_payload = Inr sample_version"
  by (simp add: cast_defs extra_payload_def sample_payload_def sample_version_def)

lemma acceptable_extra: "acceptable_payload extra_payload"
  by (simp add: acceptable_payload_def extra_payload_def sample_payload_def string_fields_def
      url_fields_def banner_is_url icon_is_url mod_is_url author_is_url)

lemma plain_extra: "plain_keys extra_payload"
  by (simp add: plain_keys_def extra_payload_def sample_payload_def Object_prototype_def)

lemma extra_accepted: "validateModVersion parse (JObj extra_payload) = Inr sample_version"
  by (simp only: validateModVersion_Inr_iff object_cast_extra acceptable_extra simp_thms)

lemma object_cast_string_initial:
  "object_cast True modVersionSchema string_initial_payload = Inr sample_version"
  by (simp add: cast_defs string_initial_payload_def sample_payload_def sample_version_def
      cast_boolean_true)

lemma acceptable_string_initial: "acceptable_payload string_initial_payload"
  by (simp add: acceptable_payload_def string_initial_payload_def sample_payload_def
      string_fields_def url_fields_def banner_is_url icon_is_url mod_is_url author_is_url
      boolean_words_def to_lower_def char_code_def)

lemma object_cast_constructor:
  "object_cast True modVersionSchema constructor_payload =
     Inl (JsTypeError ''field.resolve is not a function'')"
  by (simp add: cast_defs constructor_payload_def sample_payload_def)

lemma constructor_throws:
  "validateModVersion parse (JObj constructor_payload) =
     Inl (JsTypeError ''field.resolve is not a function'')"
  by (simp add: validateModVersion_def validate_def object_cast_constructor)



section \<open>What validateModVersion accepts\<close>

lemma well_typed_acceptable: "well_typed_payload p \<Longrightarrow> acceptable_payload p"
proof -
  have t: "text_ok v" if "is_text v" for v
    using that by (induction v rule: is_text.induct) simp_all
  have u: "url_ok v" if "is_url_text v" for v
    using that by (induction v rule: is_url_text.induct) simp_all
  have b: "boolean_ok v" if "is_boolean v" for v
    using that by (induction v rule: is_boolean.induct) simp_all
  assume "well_typed_payload p"
  then show ?thesis
    by (simp add: well_typed_payload_def acceptable_payload_def list_all_iff t u b)
qed

lemma missing_not_acceptable:
  "f \<in> set field_names \<Longrightarrow> map_of p f = None \<Longrightarrow> \<not> acceptable_payload p"
  by (auto simp add: field_names_def acceptable_payload_def string_fields_def)

lemma cast_ok_cong:
  assumes "map_of q key = map_of p key"
  shows "cast_ok q key = cast_ok p key"
  unfolding cast_ok_def assms ..

lemma plain_keys_delete: "plain_keys p \<Longrightarrow> plain_keys (AList.delete f p)"
  by (auto simp add: plain_keys_iff AList.delete_eq)

lemma delete_names_field:
  assumes f: "f \<in> set field_names" and k: "plain_keys p" and p: "acceptable_payload p"
  shows "validateModVersion parse (JObj (AList.delete f p)) =
    Inl (Validation \<lparr>path = Some f, type = RequiredError\<rparr>)"
proof -
  let ?q = "AList.delete f p"
  from field_of_name [OF f] obtain field where
    field: "map_of (schema_fields modVersionSchema) f = Some field" and
    cast: "cast field None = Inr None" and
    missing: "field_error field None = Some RequiredError"
    by blast
  have q: "map_of ?q f = None"
    by (simp add: AList.delete_conv')
  have ok: "cast_ok ?q key" if "key \<in> set field_names" "key \<noteq> f" for key
  proof -
    from p that(1) have "cast_ok p key"
      by (simp add: acceptable_iff_cast_ok)
    moreover from that(2) have "map_of ?q key = map_of p key"
      by simp
    ultimately show ?thesis
      using cast_ok_cong [of ?q key p] by simp
  qed
  have "\<exists>x. cast_prop True modVersionSchema ?q key = Inr x" if "key \<in> set field_names" for key
  proof (cases "key = f")
    case True
    then show ?thesis
      by (simp add: cast_prop_field [OF field] q cast)
  next
    case False
    from that have "cast_ok ?q key"
      using False by (rule ok)
    with that show ?thesis
      by (rule cast_ok_casts)
  qed
  moreover from k have "plain_keys ?q"
    by (rule plain_keys_delete)
  ultimately have "\<exists>v. object_cast True modVersionSchema ?q = Inr v"
    unfolding object_cast_modVersionSchema by blast
  then obtain v where v: "object_cast True modVersionSchema ?q = Inr v" ..
  have "map_of v f = None"
    by (simp add: map_of_object_cast [OF keys_modVersionSchema v] cast_value_def
        cast_prop_field [OF field] q cast)
  with missing have "field_error field (map_of v f) = Some RequiredError"
    by simp
  moreover have "field_ok modVersionSchema v key"
    if "key \<in> set (nodes modVersionSchema)" "key \<noteq> f" for key
    using that ok by (simp add: field_ok_cast_ok [OF v] nodes_modVersionSchema)
  moreover from f have "f \<in> set (nodes modVersionSchema)"
    by (simp add: nodes_modVersionSchema)
  ultimately show ?thesis
    unfolding validateModVersion_def
    using field v by (intro validate_single_error [OF distinct_nodes_modVersionSchema])
qed

text \<open>
  Claim C4. As the claim has it, a payload is accepted exactly when its ten fields are
  present and well-typed; that fails, since the schemas cast a value before they test it.
  What holds, of an input that is an object (or, for yup, the JSON text of one) no key
  of which is the name of a member of \<open>Object.prototype\<close>: it is accepted exactly when
  each of the nine string fields holds a non-empty string, a number or a boolean, each of
  the four URL fields a string that matches the URL pattern, and \<open>initial\<close> a boolean or
  one of the words \<open>true\<close>, \<open>1\<close>, \<open>false\<close> and \<open>0\<close>. An input that is no object is not
  accepted. A well-typed payload is accepted. A payload without one of the ten fields
  is rejected, and taking one field away from an acceptable payload gives the error
  \<open>required\<close> at the path of that field.
\<close>

theorem validateModVersion_accepts:
  "(coerce parse input = JObj p \<and> plain_keys p \<longrightarrow>
      ((\<exists>version. validateModVersion parse input = Inr version) \<longleftrightarrow> acceptable_payload p)) \<and>
   ((\<forall>p. coerce parse input \<noteq> JObj p) \<longrightarrow>
      validateModVersion parse input = Inl (Validation \<lparr>path = None, type = TypeError\<rparr>)) \<and>
   (plain_keys p \<and> well_typed_payload p \<longrightarrow>
      (\<exists>version. validateModVersion parse (JObj p) = Inr version)) \<and>
   (f \<in> set field_names \<and> map_of p f = None \<longrightarrow>
      (\<exists>err. validateModVersion parse (JObj p) = Inl err)) \<and>
   (f \<in> set field_names \<and> plain_keys p \<and> acceptable_payload p \<longrightarrow>
      validateModVersion parse (JObj (AList.delete f p)) =
        Inl (Validation \<lparr>path = Some f, type = RequiredError\<rparr>))"
proof (intro conjI impI)
  show "(\<exists>version. validateModVersion parse input = Inr version) \<longleftrightarrow> acceptable_payload p"
    if "coerce parse input = JObj p \<and> plain_keys p"
    using that by (subst validateModVersion_coerce) (simp add: accepted_iff)
  show "validateModVersion parse input = Inl (Validation \<lparr>path = None, type = TypeError\<rparr>)"
    if "\<forall>p. coerce parse input \<noteq> JObj p"
    using that by (subst validateModVersion_coerce) (simp split: json.split)
  show "\<exists>version. validateModVersion parse (JObj p) = Inr version"
    if "plain_keys p \<and> well_typed_payload p"
    using that by (simp add: accepted_iff well_typed_acceptable)
  show "\<exists>err. validateModVersion parse (JObj p) = Inl err"
    if "f \<in> set field_names \<and> map_of p f = None"
    using that missing_not_acceptable [of f p]
    by (simp add: rejected_iff_not_accepted accepted_iff)
  show "validateModVersion parse (JObj (AList.delete f p)) =
        Inl (Validation \<lparr>path = Some f, type = RequiredError\<rparr>)"
    if "f \<in> set field_names \<and> plain_keys p \<and> acceptable_payload p"
    using that by (simp add: delete_names_field)
qed

theorem validateModVersion_accepts_witness:
  "coerce Map.empty (JObj sample_payload) = JObj sample_payload \<and>
   plain_keys sample_payload \<and> well_typed_payload sample_payload \<and>
   acceptable_payload sample_payload \<and>
   (\<exists>version. validateModVersion Map.empty (JObj sample_payload) = Inr version) \<and>
   coerce Map.empty (JNum ''5'') = JNull \<and>
   validateModVersion Map.empty (JNum ''5'') = Inl (Validation \<lparr>path = None, type = TypeError\<rparr>) \<and>
   ''modUrl'' \<in> set field_names \<and>
   map_of (AList.delete ''modUrl'' sample_payload) ''modUrl'' = None \<and>
   (\<exists>err. validateModVersion Map.empty (JObj (AList.delete ''modUrl'' sample_payload)) = Inl err) \<and>
   validateModVersion Map.empty (JObj (AList.delete ''modUrl'' sample_payload)) =
     Inl (Validation \<lparr>path = Some ''modUrl'', type = RequiredError\<rparr>)"
  using validateModVersion_accepts [of Map.empty "JObj sample_payload" sample_payload "''modUrl''"]
    validateModVersion_accepts [of Map.empty "JNum ''5''" sample_payload "''modUrl''"]
    validateModVersion_accepts [of Map.empty "JObj sample_payload"
      "AList.delete ''modUrl'' sample_payload" "''modUrl''"]
    well_typed_sample acceptable_sample plain_sample
  by (simp add: field_names_def AList.delete_conv')

text \<open>The payload whose \<open>version\<close> is the number 2 is not well-typed, and is accepted with
  the version \<open>"2"\<close>.\<close>

theorem accepts_iff_well_typed_counterexample:
  "\<not> well_typed_payload coerced_payload \<and>
   validateModVersion Map.empty (JObj coerced_payload) =
     Inr [(''initial'', JBool True),
      (''changelog'', JStr ''Fixes''),
      (''version'', JStr ''2''),
      (''modAuthorUrl'', JStr ''https://raft.example/u/1''),
      (''modAuthorName'', JStr ''traxam''),
      (''modUrl'', JStr ''https://raft.example/mod''),
      (''modIconUrl'', JStr ''https://raft.example/i.png''),
      (''modBannerUrl'', JStr ''https://raft.example/b.png''),
      (''modDescription'', JStr ''More rafts''),
      (''modTitle'', JStr ''Raft Plus'')]"
proof
  show "\<not> well_typed_payload coerced_payload"
    by (simp add: well_typed_payload_def coerced_payload_def sample_payload_def string_fields_def)
  show "validateModVersion Map.empty (JObj coerced_payload) =
     Inr [(''initial'', JBool True),
      (''changelog'', JStr ''Fixes''),
      (''version'', JStr ''2''),
      (''modAuthorUrl'', JStr ''https://raft.example/u/1''),
      (''modAuthorName'', JStr ''traxam''),
      (''modUrl'', JStr ''https://raft.example/mod''),
      (''modIconUrl'', JStr ''https://raft.example/i.png''),
      (''modBannerUrl'', JStr ''https://raft.example/b.png''),
      (''modDescription'', JStr ''More rafts''),
      (''modTitle'', JStr ''Raft Plus'')]"
    by (simp only: validateModVersion_Inr_iff object_cast_coerced acceptable_coerced simp_thms)
qed

section \<open>URL fields\<close>

lemma url_field_cast_ok:
  assumes "f \<in> set url_fields" and "map_of p f = Some (JStr s)"
  shows "cast_ok p f \<longleftrightarrow> is_url s"
  using assms by (auto simp add: url_fields_def cast_ok_fields)

text \<open>
  Claim C6. A payload whose URL field holds a string that does not match the URL pattern
  is rejected. As the claim has it, a syntactically valid URL passes whatever its scheme;
  that fails, since the pattern knows the schemes \<open>http\<close>, \<open>https\<close> and \<open>ftp\<close> (and a
  URL that starts with \<open>//\<close>) only. What holds: a URL field that holds a string
  matching the pattern is not the field that a validation error names.
\<close>

theorem url_fields_checked:
  "f \<in> set url_fields \<and> map_of p f = Some (JStr s) \<longrightarrow>
     (\<not> is_url s \<longrightarrow> (\<exists>err. validateModVersion parse (JObj p) = Inl err)) \<and>
     (is_url s \<longrightarrow>
        (\<forall>e. validateModVersion parse (JObj p) = Inl (Validation e) \<longrightarrow> path e \<noteq> Some f))"
proof (intro impI conjI allI)
  assume a: "f \<in> set url_fields \<and> map_of p f = Some (JStr s)"
  then have ok: "cast_ok p f \<longleftrightarrow> is_url s"
    by (simp add: url_field_cast_ok)
  from a have name: "f \<in> set field_names"
    by (auto simp add: url_fields_def field_names_def)
  show "\<exists>err. validateModVersion parse (JObj p) = Inl err" if "\<not> is_url s"
    using that ok name
    by (auto simp add: rejected_iff_not_accepted accepted_iff acceptable_iff_cast_ok)
  show "path e \<noteq> Some f"
    if "is_url s" and e: "validateModVersion parse (JObj p) = Inl (Validation e)" for e
  proof
    assume "path e = Some f"
    moreover from e obtain casted key where
      v: "object_cast True modVersionSchema p = Inr casted" and "path e = Some key" and
      "\<not> field_ok modVersionSchema casted key"
      unfolding validateModVersion_def by (blast dest: validate_Inl_names_field)
    ultimately have "\<not> cast_ok p f"
      by (simp add: field_ok_cast_ok [OF v name])
    with ok that(1) show False by simp
  qed
qed

theorem url_fields_checked_witness:
  "''modUrl'' \<in> set url_fields \<and>
   map_of not_url_payload ''modUrl'' = Some (JStr ''not a url'') \<and>
   \<not> is_url ''not a url'' \<and>
   (\<exists>err. validateModVersion Map.empty (JObj not_url_payload) = Inl err) \<and>
   map_of sample_payload ''modUrl'' = Some (JStr ''https://raft.example/mod'') \<and>
   is_url ''https://raft.example/mod'' \<and>
   \<not> (\<exists>e. validateModVersion Map.empty (JObj sample_payload) = Inl (Validation e) \<and>
          path e = Some ''modUrl'')"
  using url_fields_checked [of "''modUrl''" not_url_payload "''not a url''" Map.empty]
    url_fields_checked [of "''modUrl''" sample_payload "''https://raft.example/mod''" Map.empty]
    text_is_not_url mod_is_url
  by (simp add: url_fields_def not_url_payload_def sample_payload_def)

text \<open>A URL of the scheme \<open>ws\<close>, of the same shape as one the pattern accepts, is rejected
  as the URL of the mod.\<close>

theorem any_scheme_counterexample:
  "url_of_any_scheme ''ws://raft.example/mod'' \<and>
   map_of ws_payload ''modUrl'' = Some (JStr ''ws://raft.example/mod'') \<and>
   validateModVersion Map.empty (JObj ws_payload) =
     Inl (Validation \<lparr>path = Some ''modUrl'', type = UrlError\<rparr>)"
proof (intro conjI)
  show "url_of_any_scheme ''ws://raft.example/mod''"
    by (rule ws_is_url_of_any_scheme)
  show "map_of ws_payload ''modUrl'' = Some (JStr ''ws://raft.example/mod'')"
    by (simp add: ws_payload_def sample_payload_def)
  have "map_of ws_payload ''modUrl'' = Some (JStr ''ws://raft.example/mod'')"
    by (simp add: ws_payload_def sample_payload_def)
  then have "field_error (required (url string_schema)) (map_of ws_payload ''modUrl'') =
      Some UrlError"
    by (simp add: field_error_def string_schema_def ws_is_not_url)
  moreover have "map_of (schema_fields modVersionSchema) ''modUrl'' = Some (required (url string_schema))"
    by (simp add: schema_fields_modVersionSchema)
  moreover have "''modUrl'' \<in> set (nodes modVersionSchema)"
    by (simp add: nodes_modVersionSchema field_names_def)
  moreover have "field_ok modVersionSchema ws_payload key"
    if "key \<in> set (nodes modVersionSchema)" "key \<noteq> ''modUrl''" for key
    using that cast_ok_ws_others [OF that]
    by (simp add: field_ok_cast_ok [OF object_cast_ws] nodes_modVersionSchema)
  ultimately show "validateModVersion Map.empty (JObj ws_payload) =
      Inl (Validation \<lparr>path = Some ''modUrl'', type = UrlError\<rparr>)"
    unfolding validateModVersion_def
    using object_cast_ws
    by (intro validate_single_error [OF distinct_nodes_modVersionSchema])
qed

section \<open>Inputs that are not objects\<close>

text \<open>
  Claim C7. \<open>null\<close>, a boolean, a number, an array, and a string that is not the JSON text
  of an object are rejected with a \<open>ValidationError\<close> of the type \<open>typeError\<close> at the
  root. As the claim has it, so is every string; that fails, since the object schema
  parses a string as JSON and validates the object it finds.
\<close>

theorem not_an_object:
  "(input = JNull \<or> (\<exists>b. input = JBool b) \<or> (\<exists>n. input = JNum n) \<or> (\<exists>xs. input = JArr xs) \<or>
    (\<exists>s. input = JStr s \<and> (\<forall>p. parse s \<noteq> Some (JObj p))) \<longrightarrow>
      validateModVersion parse input = Inl (Validation \<lparr>path = None, type = TypeError\<rparr>)) \<and>
   (parse s = Some (JObj p) \<longrightarrow>
      validateModVersion parse (JStr s) = validateModVersion parse (JObj p))"
proof (intro conjI impI)
  assume "input = JNull \<or> (\<exists>b. input = JBool b) \<or> (\<exists>n. input = JNum n) \<or> (\<exists>xs. input = JArr xs) \<or>
    (\<exists>s. input = JStr s \<and> (\<forall>p. parse s \<noteq> Some (JObj p)))"
  then have "\<forall>p. coerce parse input \<noteq> JObj p"
    by (auto split: option.splits json.splits)
  then show "validateModVersion parse input = Inl (Validation \<lparr>path = None, type = TypeError\<rparr>)"
    by (subst validateModVersion_coerce) (simp split: json.split)
next
  assume "parse s = Some (JObj p)"
  then show "validateModVersion parse (JStr s) = validateModVersion parse (JObj p)"
    by (subst validateModVersion_coerce) simp
qed

theorem not_an_object_witness:
  "validateModVersion Map.empty (JNum ''5'') = Inl (Validation \<lparr>path = None, type = TypeError\<rparr>) \<and>
   validateModVersion Map.empty JNull = Inl (Validation \<lparr>path = None, type = TypeError\<rparr>) \<and>
   validateModVersion Map.empty (JStr ''mod'') = Inl (Validation \<lparr>path = None, type = TypeError\<rparr>) \<and>
   validateModVersion [sample_text \<mapsto> JObj sample_payload] (JStr sample_text) =
     validateModVersion [sample_text \<mapsto> JObj sample_payload] (JObj sample_payload)"
  using not_an_object [of "JNum ''5''" Map.empty sample_text sample_payload]
    not_an_object [of JNull Map.empty sample_text sample_payload]
    not_an_object [of "JStr ''mod''" Map.empty sample_text sample_payload]
    not_an_object [of JNull "[sample_text \<mapsto> JObj sample_payload]" sample_text sample_payload]
  by simp

text \<open>The JSON text of the sample payload is accepted as the sample payload is.\<close>

theorem not_an_object_counterexample:
  "validateModVersion [sample_text \<mapsto> JObj sample_payload] (JStr sample_text) = Inr sample_payload"
  by (subst validateModVersion_coerce) (simp add: sample_accepted)

section \<open>Unknown fields\<close>

lemma cast_prop_restrict:
  "cast_prop True modVersionSchema (AList.restrict (set field_names) p) key =
     cast_prop True modVersionSchema p key"
proof (cases "key \<in> set field_names")
  case True
  then have eq: "map_of (AList.restrict (set field_names) p) key = map_of p key"
    by (simp add: restr_conv')
  from field_of_name [OF True] obtain field where
    field: "map_of (schema_fields modVersionSchema) key = Some field"
    by blast
  show ?thesis
    unfolding cast_prop_field [OF field] eq ..
next
  case False
  then show ?thesis
    by (simp add: cast_prop_unknown)
qed

lemma cast_props_restrict:
  "cast_props True modVersionSchema (AList.restrict (set field_names) p) keys =
     cast_props True modVersionSchema p keys"
  by (induction keys) (simp_all add: cast_prop_restrict split: sum.split)

lemma cast_props_append:
  "cast_props strip sch obj (xs @ ys) =
     (case cast_props strip sch obj xs of
        Inl err \<Rightarrow> Inl err
      | Inr a \<Rightarrow>
          (case cast_props strip sch obj ys of
             Inl err \<Rightarrow> Inl err
           | Inr b \<Rightarrow> Inr (a @ b)))"
  by (induction xs) (auto split: sum.splits option.splits)

lemma cast_props_unknown:
  assumes "\<And>key. key \<in> set keys \<Longrightarrow> key \<notin> set field_names \<and> key \<notin> set Object_prototype"
  shows "cast_props True modVersionSchema p keys = Inr []"
  using assms by (induction keys) (simp_all add: cast_prop_unknown)

lemma props_of_restrict:
  "props_of modVersionSchema (AList.restrict (set field_names) p) = nodes modVersionSchema"
proof -
  have "filter (\<lambda>k. k \<notin> set field_names) (map fst (AList.restrict (set field_names) p)) = []"
    by (auto simp add: filter_empty_conv AList.restrict_eq)
  then show ?thesis
    by (simp add: props_of_def nodes_modVersionSchema)
qed

text \<open>The keys of the payload that are no fields of the schema add nothing to the cast,
  when none of them is the name of an inherited member.\<close>

lemma intermediateValue_restrict:
  assumes "plain_keys p"
  shows "intermediateValue True modVersionSchema (AList.restrict (set field_names) p) =
    intermediateValue True modVersionSchema p"
proof -
  let ?others = "filter (\<lambda>k. k \<notin> set (nodes modVersionSchema)) (map fst p)"
  have "key \<notin> set field_names \<and> key \<notin> set Object_prototype" if "key \<in> set ?others" for key
    using that assms by (auto simp add: plain_keys_iff nodes_modVersionSchema)
  then have "cast_props True modVersionSchema p ?others = Inr []"
    by (rule cast_props_unknown)
  then have "cast_props True modVersionSchema p (props_of modVersionSchema p) =
      cast_props True modVersionSchema p (nodes modVersionSchema)"
    unfolding props_of_def cast_props_append by (simp split: sum.split)
  then show ?thesis
    by (simp add: intermediateValue_def props_of_restrict cast_props_restrict)
qed

lemma object_cast_restrict:
  assumes "plain_keys p"
  shows "(object_cast True modVersionSchema (AList.restrict (set field_names) p) = Inl err \<longleftrightarrow>
      object_cast True modVersionSchema p = Inl err) \<and>
    ((\<exists>v. object_cast True modVersionSchema (AList.restrict (set field_names) p) = Inr v) \<longleftrightarrow>
      (\<exists>v. object_cast True modVersionSchema p = Inr v))"
  unfolding object_cast_def intermediateValue_restrict [OF assms]
  by (simp split: sum.split)

lemma map_of_cast_restrict:
  assumes r: "object_cast True modVersionSchema (AList.restrict (set field_names) p) = Inr v'"
    and v: "object_cast True modVersionSchema p = Inr v"
  shows "map_of v' = map_of v"
proof
  fix key
  show "map_of v' key = map_of v key"
    unfolding map_of_object_cast [OF keys_modVersionSchema r]
      map_of_object_cast [OF keys_modVersionSchema v] cast_value_def cast_prop_restrict ..
qed

lemma errors_cong:
  assumes "map_of v' = map_of v"
  shows "type_errors sch v' @ test_errors sch v' = type_errors sch v @ test_errors sch v"
  unfolding type_errors_def test_errors_def type_error_at_def test_error_at_def assms ..

lemma validate_restrict:
  assumes "plain_keys p"
  shows "validateModVersion parse (JObj (AList.restrict (set field_names) p)) = Inl err \<longleftrightarrow>
    validateModVersion parse (JObj p) = Inl err"
proof (cases "object_cast True modVersionSchema p")
  case (Inl err')
  then have "object_cast True modVersionSchema (AList.restrict (set field_names) p) = Inl err'"
    using object_cast_restrict [OF assms, of err'] by simp
  with Inl show ?thesis
    by (simp add: validateModVersion_def validate_def)
next
  case (Inr v)
  then obtain v' where
    r: "object_cast True modVersionSchema (AList.restrict (set field_names) p) = Inr v'"
    using object_cast_restrict [OF assms, of err] by blast
  from errors_cong [OF map_of_cast_restrict [OF r Inr]] show ?thesis
    by (simp add: validateModVersion_def validate_def r Inr split: list.split)
qed

lemma accepted_keys:
  assumes "validateModVersion parse (JObj p) = Inr version"
  shows "set (map fst version) = set field_names"
proof -
  from assms have v: "object_cast True modVersionSchema p = Inr version"
    and ok: "\<And>key. key \<in> set field_names \<Longrightarrow> field_ok modVersionSchema version key"
    by (simp_all add: validateModVersion_def validate_Inr_iff nodes_modVersionSchema)
  have "map_of version key \<noteq> None \<longleftrightarrow> key \<in> set field_names" for key
  proof (cases "key \<in> set field_names")
    case True
    from field_of_name [OF True] obtain field where
      "map_of (schema_fields modVersionSchema) key = Some field" and
      "field_error field None = Some RequiredError"
      by blast
    with ok [OF True] have "map_of version key \<noteq> None"
      by (cases "map_of version key") (simp_all add: field_ok_def)
    with True show ?thesis by simp
  next
    case False
    then show ?thesis
      by (simp add: map_of_object_cast [OF keys_modVersionSchema v] cast_value_def
          cast_prop_unknown)
  qed
  then have "dom (map_of version) = set field_names"
    by (auto simp add: dom_def)
  then show ?thesis
    by (simp add: dom_map_of_conv_image_fst)
qed

lemma restrict_accepted:
  assumes "validateModVersion parse (JObj p) = Inr version"
  shows "\<exists>version'. validateModVersion parse (JObj (AList.restrict (set field_names) p)) =
      Inr version' \<and> map_of version' = map_of version"
proof -
  let ?r = "AList.restrict (set field_names) p"
  from assms have v: "object_cast True modVersionSchema p = Inr version"
    and a: "acceptable_payload p"
    by (simp_all add: validateModVersion_Inr_iff)
  from v have "plain_keys p"
    using object_cast_modVersionSchema [of p] by blast
  with v obtain version' where r: "object_cast True modVersionSchema ?r = Inr version'"
    using object_cast_restrict [of p "JsTypeError []"] by blast
  have "cast_ok ?r key" if "key \<in> set field_names" for key
  proof -
    from that have "map_of ?r key = map_of p key"
      by (simp add: restr_conv')
    moreover from a that have "cast_ok p key"
      by (simp add: acceptable_iff_cast_ok)
    ultimately show ?thesis
      using cast_ok_cong [of ?r key p] by simp
  qed
  then have "acceptable_payload ?r"
    by (simp add: acceptable_iff_cast_ok)
  with r have "validateModVersion parse (JObj ?r) = Inr version'"
    by (simp add: validateModVersion_Inr_iff)
  moreover have "map_of version' = map_of version"
    using r v by (rule map_of_cast_restrict)
  ultimately show ?thesis by blast
qed

lemma constructor_answer:
  "postModVersion parse onModVersionRelease (JObj constructor_payload) =
     \<lparr>status = 500, body = ErrorBody ''ServerError'' (Text ''Something went wrong on our end!'')\<rparr>"
  by (simp add: postModVersion_def constructor_throws)

lemma not_plain_constructor: "\<not> plain_keys constructor_payload"
  by (simp add: plain_keys_def constructor_payload_def Object_prototype_def)

lemma restrict_constructor:
  "AList.restrict (set field_names) constructor_payload = sample_payload"
  by (simp add: constructor_payload_def sample_payload_def field_names_def AList.restrict_eq)

text \<open>
  Claim C9. Of a payload no key of which is the name of a member of \<open>Object.prototype\<close>,
  the claim holds: the payload with its unknown fields and the payload without them are
  rejected with the same error or accepted with the same fields and values, and the keys
  of an accepted version are the ten keys of the schema. A payload with such a key,
  \<open>constructor\<close> say, is not validated at all: yup reads the inherited member as the
  schema of the key and throws a \<open>TypeError\<close>, which the server answers with status 500.
\<close>

theorem unknown_fields:
  "(plain_keys p \<longrightarrow>
      (validateModVersion parse (JObj p) = Inl err \<longleftrightarrow>
         validateModVersion parse (JObj (AList.restrict (set field_names) p)) = Inl err)) \<and>
   (validateModVersion parse (JObj p) = Inr version \<longrightarrow>
      plain_keys p \<and> set (map fst version) = set field_names \<and>
      (\<exists>version'. validateModVersion parse (JObj (AList.restrict (set field_names) p)) = Inr version' \<and>
         map_of version' = map_of version)) \<and>
   (\<not> plain_keys p \<longrightarrow>
      (\<exists>m. validateModVersion parse (JObj p) = Inl (JsTypeError m)) \<and>
      postModVersion parse onModVersionRelease (JObj p) =
        \<lparr>status = 500, body = ErrorBody ''ServerError'' (Text ''Something went wrong on our end!'')\<rparr>)"
proof (intro conjI impI)
  show "validateModVersion parse (JObj p) = Inl err \<longleftrightarrow>
      validateModVersion parse (JObj (AList.restrict (set field_names) p)) = Inl err"
    if "plain_keys p"
    using validate_restrict [OF that] by simp
next
  assume a: "validateModVersion parse (JObj p) = Inr version"
  then show "plain_keys p"
    using accepted_iff [of parse p] by blast
  from a show "set (map fst version) = set field_names"
    by (rule accepted_keys)
  from a show "\<exists>version'. validateModVersion parse (JObj (AList.restrict (set field_names) p)) =
      Inr version' \<and> map_of version' = map_of version"
    by (rule restrict_accepted)
next
  assume "\<not> plain_keys p"
  then obtain m where m: "validateModVersion parse (JObj p) = Inl (JsTypeError m)"
    using not_plain_throws by blast
  then show "\<exists>m. validateModVersion parse (JObj p) = Inl (JsTypeError m)" ..
  from m show "postModVersion parse onModVersionRelease (JObj p) =
      \<lparr>status = 500, body = ErrorBody ''ServerError'' (Text ''Something went wrong on our end!'')\<rparr>"
    by (simp add: postModVersion_def)
qed

theorem unknown_fields_witness:
  "plain_keys extra_payload \<and>
   map_of extra_payload ''secret'' = Some (JStr ''hunter2'') \<and>
   validateModVersion Map.empty (JObj extra_payload) = Inr sample_version \<and>
   set (map fst sample_version) = set field_names \<and>
   map_of sample_version ''secret'' = None \<and>
   AList.restrict (set field_names) extra_payload = sample_payload \<and>
   (\<exists>version'. validateModVersion Map.empty (JObj sample_payload) = Inr version' \<and>
      map_of version' = map_of sample_version) \<and>
   \<not> plain_keys constructor_payload \<and>
   map_of constructor_payload ''constructor'' = Some (JNum ''1'') \<and>
   AList.restrict (set field_names) constructor_payload = sample_payload \<and>
   validateModVersion Map.empty (JObj sample_payload) = Inr sample_payload \<and>
   validateModVersion Map.empty (JObj constructor_payload) =
     Inl (JsTypeError ''field.resolve is not a function'') \<and>
   postModVersion Map.empty (\<lambda>version. None) (JObj constructor_payload) =
     \<lparr>status = 500, body = ErrorBody ''ServerError'' (Text ''Something went wrong on our end!'')\<rparr>"
  using unknown_fields [of extra_payload Map.empty "JsTypeError []" sample_version "\<lambda>version. None"]
    unknown_fields [of constructor_payload Map.empty "JsTypeError []" sample_version "\<lambda>version. None"]
    extra_accepted [of Map.empty] plain_extra not_plain_constructor
    constructor_throws [of Map.empty] sample_accepted [of Map.empty] restrict_constructor
  by (simp add: extra_payload_def sample_payload_def sample_version_def field_names_def
      AList.restrict_eq constructor_payload_def)

section \<open>Casting before testing\<close>

text \<open>
  Claim C10. The payload that differs from the sample payload in \<open>initial\<close>, which is the
  string \<open>"true"\<close> and no boolean, is accepted, and the \<open>initial\<close> of the resulting version
  is the boolean \<open>true\<close>.
\<close>

theorem string_initial_is_cast:
  "map_of string_initial_payload ''initial'' = Some (JStr ''true'') \<and>
   \<not> is_boolean (map_of string_initial_payload ''initial'') \<and>
   well_typed_payload (AList.delete ''initial'' string_initial_payload @ [(''initial'', JBool True)]) \<and>
   validateModVersion parse (JObj string_initial_payload) = Inr sample_version \<and>
   map_of sample_version ''initial'' = Some (JBool True)"
proof (intro conjI)
  show "validateModVersion parse (JObj string_initial_payload) = Inr sample_version"
    by (simp only: validateModVersion_Inr_iff object_cast_string_initial acceptable_string_initial
        simp_thms)
  show "well_typed_payload (AList.delete ''initial'' string_initial_payload @ [(''initial'', JBool True)])"
    by (simp add: well_typed_payload_def string_initial_payload_def sample_payload_def
        string_fields_def url_fields_def banner_is_url icon_is_url mod_is_url author_is_url)
qed (simp_all add: string_initial_payload_def sample_payload_def sample_version_def)

section \<open>The answers of the webhook server\<close>






section \<open>The cooldown and the role mention\<close>

text \<open>
  Claim C1. \<open>shouldPing\<close> is true exactly when no ping has been recorded for the category
  or the last one is at least the cooldown ago. After a ping recorded at \<open>T\<close>, and with a
  role configured for the category, the notification composed at \<open>T + D - 1\<close> has no
  mention and the one composed at \<open>T + D\<close> mentions the role, \<open>D\<close> being the cooldown.
\<close>

theorem cooldown_rule:
  "(shouldPing cfg st c now \<longleftrightarrow>
      st c = None \<or> (\<exists>last. st c = Some last \<and> now - last \<ge> pingCooldown cfg)) \<and>
   (rolePingId cfg c = Some role \<longrightarrow>
      mention (decide_and_compose cfg (recordPing st c T) c event (T + pingCooldown cfg - 1)) = None \<and>
      \<not> includesMention (decide_and_compose cfg (recordPing st c T) c event (T + pingCooldown cfg - 1)) \<and>
      mention (decide_and_compose cfg (recordPing st c T) c event (T + pingCooldown cfg)) = Some role \<and>
      includesMention (decide_and_compose cfg (recordPing st c T) c event (T + pingCooldown cfg)))"
  by (simp add: shouldPing_def recordPing_def decide_and_compose_def compose_def split: option.split)

theorem cooldown_rule_witness:
  "rolePingId sample_configuration ModVersion = Some ''4711'' \<and>
   mention (decide_and_compose sample_configuration (recordPing Map.empty ModVersion 1000)
      ModVersion sample_payload (1000 + pingCooldown sample_configuration - 1)) = None \<and>
   mention (decide_and_compose sample_configuration (recordPing Map.empty ModVersion 1000)
      ModVersion sample_payload (1000 + pingCooldown sample_configuration)) = Some ''4711''"
  using cooldown_rule [of sample_configuration Map.empty ModVersion 0 "''4711''" 1000 sample_payload]
  by (simp add: sample_configuration_def)

text \<open>
  Claim C3. The composed notification has a mention exactly when the category has a role
  id and the ping decision is true; the mention is then that role, and in every other
  case there is none at all.
\<close>

theorem compose_mention:
  "(mention (compose cfg c event pingDecision) \<noteq> None \<longleftrightarrow>
      rolePingId cfg c \<noteq> None \<and> pingDecision) \<and>
   (includesMention (compose cfg c event pingDecision) \<longleftrightarrow>
      rolePingId cfg c \<noteq> None \<and> pingDecision) \<and>
   (rolePingId cfg c \<noteq> None \<and> pingDecision \<longrightarrow>
      mention (compose cfg c event pingDecision) = rolePingId cfg c) \<and>
   (\<not> (rolePingId cfg c \<noteq> None \<and> pingDecision) \<longrightarrow>
      mention (compose cfg c event pingDecision) = None)"
  by (auto simp add: compose_def split: option.splits)

theorem compose_mention_witness:
  "mention (compose sample_configuration ModVersion sample_payload True) = Some ''4711'' \<and>
   mention (compose sample_configuration ModVersion sample_payload False) = None \<and>
   mention (compose sample_configuration LauncherVersion sample_payload True) = None"
  using compose_mention [of sample_configuration ModVersion sample_payload True]
    compose_mention [of sample_configuration ModVersion sample_payload False]
    compose_mention [of sample_configuration LauncherVersion sample_payload True]
  by (simp add: sample_configuration_def)

text \<open>
  Claim C5. Recording a ping for one category leaves the decision, and the state, of
  every other category as it was; so does a whole dispatch for that category.
\<close>

theorem cooldown_independence:
  assumes "a \<noteq> b"
  shows "shouldPing cfg (recordPing st a T) b T' = shouldPing cfg st b T' \<and>
    recordPing st a T b = st b \<and>
    fst (handle cfg validator send st a rawPayload T) b = st b"
  using assms
  by (simp add: shouldPing_def recordPing_def handle_def Let_def split: sum.split)

theorem cooldown_independence_witness:
  "ModVersion \<noteq> LauncherVersion \<and>
   shouldPing sample_configuration (recordPing [LauncherVersion \<mapsto> 0] ModVersion 5000)
     LauncherVersion 6000 =
   shouldPing sample_configuration [LauncherVersion \<mapsto> 0] LauncherVersion 6000 \<and>
   recordPing [LauncherVersion \<mapsto> 0] ModVersion 5000 LauncherVersion = Some 0"
  using cooldown_independence [of ModVersion LauncherVersion sample_configuration
      "[LauncherVersion \<mapsto> 0]" 5000 6000 "\<lambda>c input. Inr sample_payload" "\<lambda>n. True" JNull]
  by simp

text \<open>
  Claim C2. When the sender fails, the dispatch is rejected as a downstream failure and
  the cooldown state is what it was: the decision for the category at any later time is
  the one that the state before the dispatch gives.
\<close>

theorem sender_failure_keeps_cooldown:
  assumes "validator c rawPayload = Inr event"
    and "\<not> send (decide_and_compose cfg st c event now)"
  shows "handle cfg validator send st c rawPayload now = (st, Rejected DownstreamFailure) \<and>
    (\<forall>later. shouldPing cfg (fst (handle cfg validator send st c rawPayload now)) c later
       = shouldPing cfg st c later)"
  using assms by (simp add: handle_def)

theorem sender_failure_keeps_cooldown_witness:
  "handle sample_configuration (\<lambda>c input. Inr sample_payload) (\<lambda>n. False) Map.empty
     ModVersion (JObj sample_payload) 1000 = (Map.empty, Rejected DownstreamFailure) \<and>
   shouldPing sample_configuration
     (fst (handle sample_configuration (\<lambda>c input. Inr sample_payload) (\<lambda>n. False) Map.empty
        ModVersion (JObj sample_payload) 1000)) ModVersion 1001"
  using sender_failure_keeps_cooldown [of "\<lambda>c input. Inr sample_payload" ModVersion
      "JObj sample_payload" sample_payload "\<lambda>n. False" sample_configuration Map.empty 1000]
  by (simp add: shouldPing_def)

end
